(* ===== verification/Forms_Prelude.thy ===== *)
theory Forms_Prelude
  imports Main "HOL-Library.Sublist"
begin

text \<open>
  Shared vocabulary of the development: the Python values and exceptions that
  \<^verbatim>\<open>src/src/data_forms.py\<close> manipulates, the Python operators it applies to them
  (truth value, \<^verbatim>\<open>in\<close>, \<^verbatim>\<open>==\<close>, list indexing with negative indices, slices,
  string repetition), and generic lemmas on them.  Every component theory imports this one.

  Collections: \<open>form_defs\<close> holds the unfolding equations of the non-recursive
  operations (used as \<open>simp add: form_defs\<close>), \<open>py_simps\<close> the evaluation rules of
  the Python operators.
\<close>

named_theorems form_defs \<open>definitions of the non-recursive operations of the model\<close>
named_theorems py_simps \<open>evaluation rules of the Python operators\<close>

section \<open>Exceptions and dynamically typed values\<close>

text \<open>The exceptions the module can raise; \<open>KeyError\<close> is caught where it arises.\<close>

datatype error = IndexError | TypeError | NotImplementedError

text \<open>
  What \<^verbatim>\<open>field.getValue()\<close> can return: nothing, a boolean, a string or a
  sequence of strings.  Strings are byte strings (\<^typ>\<open>string\<close>).
\<close>

datatype pyval = PNone | PBool bool | PStr string | PList "string list"

type_synonym key = string

abbreviation KEY_LEFT :: key where "KEY_LEFT \<equiv> ''KEY_LEFT''"
abbreviation KEY_RIGHT :: key where "KEY_RIGHT \<equiv> ''KEY_RIGHT''"
abbreviation KEY_UP :: key where "KEY_UP \<equiv> ''KEY_UP''"
abbreviation KEY_DOWN :: key where "KEY_DOWN \<equiv> ''KEY_DOWN''"

section \<open>Python operators\<close>

text \<open>\<^verbatim>\<open>bool(v)\<close>: the truth value of a Python object.\<close>

fun py_bool :: "pyval \<Rightarrow> bool" where
  "py_bool PNone = False"
| "py_bool (PBool b) = b"
| "py_bool (PStr s) = (s \<noteq> [])"
| "py_bool (PList xs) = (xs \<noteq> [])"

text \<open>
  \<^verbatim>\<open>x in v\<close> for a string \<open>x\<close>: membership in a list, substring test in a
  string, \<^verbatim>\<open>TypeError\<close> for \<^verbatim>\<open>None\<close> and booleans, which are not iterable.
\<close>

fun py_in :: "string \<Rightarrow> pyval \<Rightarrow> error + bool" where
  "py_in x (PList xs) = Inr (x \<in> set xs)"
| "py_in x (PStr s) = Inr (sublist x s)"
| "py_in x PNone = Inl TypeError"
| "py_in x (PBool b) = Inl TypeError"

text \<open>\<^verbatim>\<open>v == s\<close> for a string \<open>s\<close>: values of different types are unequal.\<close>

fun py_eq_str :: "pyval \<Rightarrow> string \<Rightarrow> bool" where
  "py_eq_str (PStr t) s = (t = s)"
| "py_eq_str v s = False"

text \<open>\<^verbatim>\<open>isinstance(v, str)\<close>.\<close>

fun is_str :: "pyval \<Rightarrow> bool" where
  "is_str (PStr s) = True"
| "is_str v = False"

text \<open>
  The position \<^verbatim>\<open>xs[i]\<close> denotes: negative indices count from the end, anything
  outside \<open>[-len, len)\<close> is an \<^verbatim>\<open>IndexError\<close>.
\<close>

definition py_index :: "'a list \<Rightarrow> int \<Rightarrow> error + nat" where
  "py_index xs i =
     (if 0 \<le> i \<and> i < int (length xs) then Inr (nat i)
      else if i < 0 \<and> - int (length xs) \<le> i then Inr (nat (int (length xs) + i))
      else Inl IndexError)"

definition py_get :: "'a list \<Rightarrow> int \<Rightarrow> error + 'a" where
  "py_get xs i = (case py_index xs i of Inl e \<Rightarrow> Inl e | Inr k \<Rightarrow> Inr (xs ! k))"

text \<open>The indices at which \<^verbatim>\<open>xs[i]\<close> does not raise.\<close>

definition index_ok :: "'a list \<Rightarrow> int \<Rightarrow> bool" where
  "index_ok xs i \<longleftrightarrow> - int (length xs) \<le> i \<and> i < int (length xs)"

text \<open>
  A cursor into a list that clamps at both ends: it lies in \<open>[0, len - 1]\<close>, and is
  0 when the list is empty.
\<close>

definition cursor_ok :: "'a list \<Rightarrow> int \<Rightarrow> bool" where
  "cursor_ok xs p \<longleftrightarrow> 0 \<le> p \<and> p \<le> max 0 (int (length xs) - 1)"

text \<open>\<^verbatim>\<open>s * n\<close>: repetition; a count below one gives the empty string.\<close>

definition py_repeat :: "string \<Rightarrow> int \<Rightarrow> string" where
  "py_repeat s n = concat (replicate (nat n) s)"

text \<open>
  \<^verbatim>\<open>xs[a:b]\<close>: a bound below zero counts from the end, and each bound is then
  clamped into \<open>[0, len]\<close>; the slice is empty when the bounds cross.
\<close>

definition slice_bound :: "nat \<Rightarrow> int \<Rightarrow> nat" where
  "slice_bound n i = (if i < 0 then nat (int n + i) else min n (nat i))"

definition py_slice :: "'a list \<Rightarrow> int \<Rightarrow> int \<Rightarrow> 'a list" where
  "py_slice xs a b =
     take (slice_bound (length xs) b - slice_bound (length xs) a)
       (drop (slice_bound (length xs) a) xs)"

text \<open>\<^verbatim>\<open>"%s" % b\<close> for a boolean.\<close>

definition py_str_bool :: "bool \<Rightarrow> string" where
  "py_str_bool b = (if b then ''True'' else ''False'')"

section \<open>Lemmas on indexing\<close>

lemma py_index_in_range [py_simps]:
  "0 \<le> i \<Longrightarrow> i < int (length xs) \<Longrightarrow> py_index xs i = Inr (nat i)"
  by (simp add: py_index_def)

lemma py_index_beyond [py_simps]:
  "int (length xs) \<le> i \<Longrightarrow> py_index xs i = Inl IndexError"
  by (simp add: py_index_def)

lemma py_index_Inr_iff:
  "py_index xs i = Inr k \<longleftrightarrow>
     (0 \<le> i \<and> i < int (length xs) \<and> k = nat i) \<or>
     (i < 0 \<and> - int (length xs) \<le> i \<and> k = nat (int (length xs) + i))"
  by (auto simp: py_index_def)

lemma py_index_less: "py_index xs i = Inr k \<Longrightarrow> k < length xs"
  by (auto simp: py_index_Inr_iff)

lemma py_index_upper: "py_index xs i = Inr k \<Longrightarrow> i < int (length xs)"
  by (auto simp: py_index_Inr_iff)

lemma py_index_nat [simp]: "py_index xs (int k) = (if k < length xs then Inr k else Inl IndexError)"
  by (simp add: py_index_def)

lemma py_index_error: "py_index xs i = Inl e \<Longrightarrow> e = IndexError"
  by (auto simp: py_index_def split: if_splits)

lemma py_index_length_cong: "length xs = length ys \<Longrightarrow> py_index xs i = py_index ys i"
  by (simp add: py_index_def)

lemma cursor_ok_index_ok: "cursor_ok xs p \<Longrightarrow> index_ok xs p \<longleftrightarrow> xs \<noteq> []"
  by (cases xs) (auto simp: cursor_ok_def index_ok_def)

lemma cursor_ok_0 [simp]: "cursor_ok xs 0"
  by (simp add: cursor_ok_def)

lemma py_index_succeeds_iff: "(\<exists>k. py_index xs i = Inr k) \<longleftrightarrow> index_ok xs i"
  by (auto simp: py_index_def index_ok_def)

lemma py_get_succeeds_iff: "(\<exists>x. py_get xs i = Inr x) \<longleftrightarrow> index_ok xs i"
  by (auto simp: py_get_def py_index_def index_ok_def)

lemma py_get_fails_iff: "py_get xs i = Inl IndexError \<longleftrightarrow> \<not> index_ok xs i"
  by (auto simp: py_get_def py_index_def index_ok_def)

lemma index_ok_Nil [simp]: "\<not> index_ok [] i"
  by (simp add: index_ok_def)

lemma py_get_in_range [py_simps]:
  "0 \<le> i \<Longrightarrow> i < int (length xs) \<Longrightarrow> py_get xs i = Inr (xs ! nat i)"
  by (simp add: py_get_def py_index_in_range)

lemma py_get_beyond [py_simps]:
  "int (length xs) \<le> i \<Longrightarrow> py_get xs i = Inl IndexError"
  by (simp add: py_get_def py_index_beyond)

lemma py_get_nat [simp]:
  "py_get xs (int k) = (if k < length xs then Inr (xs ! k) else Inl IndexError)"
  by (simp add: py_get_def)

lemma py_get_Nil [simp]: "py_get [] i = Inl IndexError"
  by (simp add: py_get_def py_index_def)

lemma py_get_Inr_upper: "py_get xs i = Inr x \<Longrightarrow> i < int (length xs)"
  by (auto simp: py_get_def dest: py_index_upper split: sum.splits)

lemma py_get_Inr_mem: "py_get xs i = Inr x \<Longrightarrow> x \<in> set xs"
  by (auto simp: py_get_def dest: py_index_less split: sum.splits)

lemma py_get_error: "py_get xs i = Inl e \<Longrightarrow> e = IndexError"
  by (auto simp: py_get_def dest: py_index_error split: sum.splits)

section \<open>Lemmas on lists shared by the components\<close>

lemma takeWhile_nth_stop:
  "length (takeWhile P xs) < length xs \<Longrightarrow> \<not> P (xs ! length (takeWhile P xs))"
  by (induction xs) auto

lemma nth_takeWhile_holds:
  "k < length (takeWhile P xs) \<Longrightarrow> P (xs ! k)"
  by (metis nth_mem set_takeWhileD takeWhile_nth)

lemma py_repeat_length [simp]: "length (py_repeat [c] n) = nat n"
  by (simp add: py_repeat_def length_concat sum_list_replicate)

lemma concat_replicate_single: "concat (replicate k [c]) = replicate k c"
  by (induction k) simp_all

lemma py_repeat_replicate: "py_repeat [c] n = replicate (nat n) c"
  by (simp add: py_repeat_def concat_replicate_single)

section \<open>Lemmas on slices\<close>

lemma slice_bound_le [simp]: "slice_bound n i \<le> n"
  by (auto simp: slice_bound_def nat_le_iff)

lemma py_slice_length:
  "length (py_slice xs a b) = slice_bound (length xs) b - slice_bound (length xs) a"
  by (simp add: py_slice_def min_absorb2 diff_le_mono)

lemma py_slice_nonneg:
  "0 \<le> a \<Longrightarrow> 0 \<le> b \<Longrightarrow> py_slice xs a b = take (nat b - nat a) (drop (nat a) xs)"
  by (auto simp: py_slice_def slice_bound_def min_def)

lemma py_slice_window:
  assumes "0 \<le> a" and "0 \<le> n"
  shows "length (py_slice xs a (a + n)) = min (nat n) (length xs - nat a)"
  using assms by (simp add: py_slice_nonneg nat_add_distrib min.commute)

lemma py_slice_all [simp]: "py_slice xs 0 (int (length xs)) = xs"
  by (simp add: py_slice_def slice_bound_def)

lemma py_slice_drop_last: "py_slice xs 0 (- 1) = butlast xs"
  by (simp add: py_slice_def slice_bound_def butlast_conv_take nat_diff_distrib')

text \<open>Iterating a step that keeps a predicate and lowers a measure reaches the goal.\<close>

lemma iterate_reaches:
  fixes m :: "'a \<Rightarrow> nat"
  assumes "P c" and "\<And>c. P c \<Longrightarrow> c \<noteq> k \<Longrightarrow> P (f c) \<and> m (f c) < m c"
  shows "\<exists>n \<le> m c. (f ^^ n) c = k"
  using assms(1)
proof (induction "m c" arbitrary: c rule: less_induct)
  case less
  show ?case
  proof (cases "c = k")
    case True
    then show ?thesis by (intro exI [of _ 0]) simp
  next
    case False
    from assms(2) [OF less.prems False] have s: "P (f c)" "m (f c) < m c" by simp_all
    from less.hyps [OF s(2) s(1)] obtain n where "n \<le> m (f c)" "(f ^^ n) (f c) = k" by blast
    with s(2) show ?thesis by (intro exI [of _ "Suc n"]) (simp add: funpow_swap1)
  qed
qed

end
