(* ===== verification/Field.thy ===== *)
theory Field
  imports Forms_Prelude
begin

text \<open>
  The field set the module is handed: the form object and its fields.  Their
  classes live in the XMPP library, outside \<^verbatim>\<open>src/\<close>; the records and operations
  here follow the data model of the specification (section 3) and the calls the
  module makes on them (\<^verbatim>\<open>getValue\<close>, \<^verbatim>\<open>getOptions\<close>, \<^verbatim>\<open>setValue\<close>, \<^verbatim>\<open>setAnswer\<close>,
  \<^verbatim>\<open>delOptions\<close>, item assignment to \<^verbatim>\<open>'label'\<close>, \<^verbatim>\<open>'title'\<close> and \<^verbatim>\<open>'instructions'\<close>).

  A widget keeps a reference to its field and mutates the field through it.  The
  model keeps the fields once, in the form, and a reference is the position of the
  field in \<^verbatim>\<open>form.getFields()\<close>: \<open>field_at\<close> reads through a reference, \<open>upd_field\<close>
  writes through it.
\<close>

section \<open>Data\<close>

record form_option =
  o_value :: string
  o_label :: string

record field =
  f_type :: string
  f_label :: string
  f_instructions :: string
  f_value :: pyval
  f_options :: "form_option list"

record form =
  fm_title :: string
  fm_instructions :: string
  fm_fields :: "(string \<times> field) list"

type_synonym field_ref = nat

section \<open>Operations of a field\<close>

definition getValue :: "field \<Rightarrow> pyval" where
  [form_defs]: "getValue f = f_value f"

definition getOptions :: "field \<Rightarrow> form_option list" where
  [form_defs]: "getOptions f = f_options f"

definition setValue :: "pyval \<Rightarrow> field \<Rightarrow> field" where
  [form_defs]: "setValue v f = f\<lparr>f_value := v\<rparr>"

definition setAnswer :: "pyval \<Rightarrow> field \<Rightarrow> field" where
  [form_defs]: "setAnswer v f = f\<lparr>f_value := v\<rparr>"

definition delOptions :: "field \<Rightarrow> field" where
  [form_defs]: "delOptions f = f\<lparr>f_options := []\<rparr>"

definition set_label :: "string \<Rightarrow> field \<Rightarrow> field" where
  [form_defs]: "set_label s f = f\<lparr>f_label := s\<rparr>"

section \<open>Operations of a form\<close>

definition getFields :: "form \<Rightarrow> (string \<times> field) list" where
  [form_defs]: "getFields fm = fm_fields fm"

definition field_at :: "form \<Rightarrow> field_ref \<Rightarrow> field" where
  "field_at fm r = snd (fm_fields fm ! r)"

definition upd_field :: "field_ref \<Rightarrow> (field \<Rightarrow> field) \<Rightarrow> form \<Rightarrow> form" where
  "upd_field r g fm =
     fm\<lparr>fm_fields := (fm_fields fm)[r := (fst (fm_fields fm ! r), g (snd (fm_fields fm ! r)))]\<rparr>"

text \<open>The names of the fields, and the predicate that a reference points into the form.\<close>

definition field_names :: "form \<Rightarrow> string list" where
  "field_names fm = map fst (fm_fields fm)"

definition valid_ref :: "form \<Rightarrow> field_ref \<Rightarrow> bool" where
  "valid_ref fm r \<longleftrightarrow> r < length (fm_fields fm)"

section \<open>Laws of reading and writing through references\<close>

lemma length_upd_field [simp]: "length (fm_fields (upd_field r g fm)) = length (fm_fields fm)"
  by (simp add: upd_field_def)

lemma valid_ref_upd_field [simp]: "valid_ref (upd_field r g fm) q = valid_ref fm q"
  by (simp add: valid_ref_def)

lemma field_names_upd_field [simp]: "field_names (upd_field r g fm) = field_names fm"
  by (simp add: field_names_def upd_field_def map_update)
    (metis fst_conv list_update_beyond list_update_id map_update not_le_imp_less nth_map)

lemma field_at_upd_same [simp]:
  "valid_ref fm r \<Longrightarrow> field_at (upd_field r g fm) r = g (field_at fm r)"
  by (simp add: field_at_def upd_field_def valid_ref_def)

lemma field_at_upd_other [simp]:
  "q \<noteq> r \<Longrightarrow> field_at (upd_field r g fm) q = field_at fm q"
  by (simp add: field_at_def upd_field_def)

lemma upd_field_title [simp]: "fm_title (upd_field r g fm) = fm_title fm"
  and upd_field_instructions [simp]: "fm_instructions (upd_field r g fm) = fm_instructions fm"
  by (simp_all add: upd_field_def)

lemma upd_field_invalid: "\<not> valid_ref fm r \<Longrightarrow> upd_field r g fm = fm"
  by (simp add: upd_field_def valid_ref_def list_update_beyond)

lemma upd_field_cong: "(\<And>f. g f = h f) \<Longrightarrow> upd_field r g fm = upd_field r h fm"
  by (simp add: upd_field_def)

lemma upd_field_upd_field:
  "upd_field r g (upd_field r h fm) = upd_field r (g \<circ> h) fm"
  by (cases "valid_ref fm r")
    (simp_all add: upd_field_def valid_ref_def list_update_beyond)

lemma field_at_title_update [simp]: "field_at (fm\<lparr>fm_title := s\<rparr>) r = field_at fm r"
  and field_at_instructions_update [simp]:
    "field_at (fm\<lparr>fm_instructions := s\<rparr>) r = field_at fm r"
  by (simp_all add: field_at_def)

end
