(* ===== verification/Effects.thy ===== *)
theory Effects
  imports Field
begin

text \<open>
  What an operation of the module does beyond changing its own attributes: it
  calls methods of curses windows and of the \<^verbatim>\<open>windows\<close> library, takes and
  releases the global lock \<^verbatim>\<open>g_lock\<close>, calls the two callbacks, and may raise.
  An operation of the model therefore returns a pair: the calls it made, in order
  (its trace), and either the exception that ended it or its result.

  The rendering surface stays opaque: a trace records which method was called on
  which window with which arguments, not what the screen shows afterwards.

  \<open>ret\<close>, \<open>raise\<close>, \<open>emit\<close>, \<open>lift\<close> and \<open>bind\<close> build such computations;
  \<open>with_lock\<close> is the \<^verbatim>\<open>with g_lock:\<close> block, which releases the lock on every
  exit.  The lemmas are the monad laws and the rules that read the trace and the
  result of a composed computation.
\<close>

section \<open>Events\<close>

text \<open>
  A call on a window object.  \<open>AddstrHere\<close> and \<open>AddnstrHere\<close> are \<^verbatim>\<open>addstr\<close> and
  \<^verbatim>\<open>addnstr\<close> without coordinates, which write at the cursor of the window (the
  latter with a length and an attribute), and \<open>Getyx\<close> reads that cursor.
  \<open>ExtRefresh\<close>, \<open>ExtCommand\<close> and \<open>ExtResize\<close> are
  the methods inherited from \<^verbatim>\<open>windows.Win\<close> and \<^verbatim>\<open>windows.Input\<close>, and
  \<open>ExtRefreshArgs\<close> the \<^verbatim>\<open>refresh\<close> of the other windows of the tab with the
  strings it is given; their bodies are outside the module.
\<close>

datatype call =
    Attron int
  | Attroff int
  | Addnstr int int string int
  | Addstr int int string
  | AddstrHere string
  | AddnstrHere string int int
  | Getyx
  | Refresh
  | Erase
  | Newwin int int int int
  | Resize int int
  | ExtRefresh string int int
  | ExtCommand key
  | ExtResize int int int int
  | ExtRefreshArgs "string list"

text \<open>The windows of the tab beside the form window.\<close>

datatype tab_window = TopicWin | TabWin | HelpWin

text \<open>
  An event: a lock operation, a call on the window of the input attached to a
  field, a call on the window of the form, a call on another window of the tab, or
  a callback applied to the form.
\<close>

datatype event =
    Acquire
  | Release
  | InputCall field_ref call
  | FormCall call
  | WinCall tab_window call
  | OnCancel form
  | OnSend form

section \<open>Computations\<close>

type_synonym 'a io = "event list \<times> (error + 'a)"

definition ret :: "'a \<Rightarrow> 'a io" where
  "ret x = ([], Inr x)"

definition raise :: "error \<Rightarrow> 'a io" where
  "raise e = ([], Inl e)"

definition emit :: "event \<Rightarrow> unit io" where
  "emit ev = ([ev], Inr ())"

definition lift :: "error + 'a \<Rightarrow> 'a io" where
  "lift r = ([], r)"

definition bind :: "'a io \<Rightarrow> ('a \<Rightarrow> 'b io) \<Rightarrow> 'b io" where
  "bind m f =
     (case snd m of
        Inl e \<Rightarrow> (fst m, Inl e)
      | Inr x \<Rightarrow> (fst m @ fst (f x), snd (f x)))"

definition with_lock :: "'a io \<Rightarrow> 'a io" where
  "with_lock m = (Acquire # fst m @ [Release], snd m)"

abbreviation trace_of :: "'a io \<Rightarrow> event list" where
  "trace_of m \<equiv> fst m"

abbreviation result_of :: "'a io \<Rightarrow> error + 'a" where
  "result_of m \<equiv> snd m"

text \<open>A computation succeeds when it ends with a result.\<close>

definition succeeds :: "'a io \<Rightarrow> bool" where
  "succeeds m \<longleftrightarrow> (case snd m of Inl e \<Rightarrow> False | Inr x \<Rightarrow> True)"

definition the_result :: "'a io \<Rightarrow> 'a" where
  "the_result m = projr (snd m)"

text \<open>Running a list of computations in order, each on the result of the one before.\<close>

fun io_fold :: "('b \<Rightarrow> 'a \<Rightarrow> 'a io) \<Rightarrow> 'b list \<Rightarrow> 'a \<Rightarrow> 'a io" where
  "io_fold f [] s = ret s"
| "io_fold f (x # xs) s = bind (f x s) (io_fold f xs)"

text \<open>\<^verbatim>\<open>[f(x) for x in xs]\<close> for an \<open>f\<close> that may raise.\<close>

fun io_map :: "('b \<Rightarrow> error + 'a) \<Rightarrow> 'b list \<Rightarrow> error + 'a list" where
  "io_map f [] = Inr []"
| "io_map f (x # xs) =
     (case f x of Inl e \<Rightarrow> Inl e
      | Inr y \<Rightarrow> (case io_map f xs of Inl e \<Rightarrow> Inl e | Inr ys \<Rightarrow> Inr (y # ys)))"

section \<open>The lock\<close>

text \<open>
  \<open>lock_run es n\<close> follows the lock through a trace that starts with the lock
  held \<open>n\<close> times (\<^verbatim>\<open>g_lock\<close> is re-entrant): \<open>None\<close> if the trace releases a lock
  that is not held.  A trace is balanced when it starts and ends with the lock free.
  \<open>draws_locked\<close> says that every curses call of the trace is made while the lock
  is held; the calls into \<^verbatim>\<open>windows\<close> (\<open>ExtRefresh\<close>, \<open>ExtCommand\<close>, \<open>ExtResize\<close>) take
  the lock themselves and are not constrained.
\<close>

fun lock_run :: "event list \<Rightarrow> nat \<Rightarrow> nat option" where
  "lock_run [] n = Some n"
| "lock_run (Acquire # es) n = lock_run es (Suc n)"
| "lock_run (Release # es) n = (case n of 0 \<Rightarrow> None | Suc k \<Rightarrow> lock_run es k)"
| "lock_run (e # es) n = lock_run es n"

definition lock_balanced :: "event list \<Rightarrow> bool" where
  "lock_balanced es \<longleftrightarrow> lock_run es 0 = Some 0"

fun is_ext :: "call \<Rightarrow> bool" where
  "is_ext (ExtRefresh s p c) = True"
| "is_ext (ExtCommand k) = True"
| "is_ext (ExtResize h w y x) = True"
| "is_ext (ExtRefreshArgs ss) = True"
| "is_ext c = False"

fun draws_locked :: "event list \<Rightarrow> nat \<Rightarrow> bool" where
  "draws_locked [] n = True"
| "draws_locked (Acquire # es) n = draws_locked es (Suc n)"
| "draws_locked (Release # es) n = draws_locked es (n - 1)"
| "draws_locked (InputCall r c # es) n = ((is_ext c \<or> 0 < n) \<and> draws_locked es n)"
| "draws_locked (FormCall c # es) n = ((is_ext c \<or> 0 < n) \<and> draws_locked es n)"
| "draws_locked (WinCall w c # es) n = ((is_ext c \<or> 0 < n) \<and> draws_locked es n)"
| "draws_locked (e # es) n = draws_locked es n"

text \<open>
  A computation is \<open>disciplined\<close> when, started with the lock free, it makes every
  curses call under the lock and leaves the lock free.
\<close>

definition disciplined :: "'a io \<Rightarrow> bool" where
  "disciplined m \<longleftrightarrow> draws_locked (fst m) 0 \<and> lock_balanced (fst m)"

text \<open>A computation is \<open>quiet\<close> when it does not touch the lock.\<close>

definition quiet :: "'a io \<Rightarrow> bool" where
  "quiet m \<longleftrightarrow> list_all (\<lambda>e. e \<noteq> Acquire \<and> e \<noteq> Release) (fst m)"

section \<open>Monad laws and projections\<close>

named_theorems io_simps \<open>trace and result of composed computations\<close>

lemma ret_simps [simp, io_simps]: "fst (ret x) = []" "snd (ret x) = Inr x"
  by (simp_all add: ret_def)

lemma raise_simps [simp, io_simps]: "fst (raise e) = []" "snd (raise e) = Inl e"
  by (simp_all add: raise_def)

lemma emit_simps [simp, io_simps]: "fst (emit ev) = [ev]" "snd (emit ev) = Inr ()"
  by (simp_all add: emit_def)

lemma lift_simps [simp, io_simps]: "fst (lift r) = []" "snd (lift r) = r"
  by (simp_all add: lift_def)

lemma with_lock_simps [simp, io_simps]:
  "fst (with_lock m) = Acquire # fst m @ [Release]" "snd (with_lock m) = snd m"
  by (simp_all add: with_lock_def)

lemma ret_inject [simp]: "ret x = ret y \<longleftrightarrow> x = y"
  by (simp add: ret_def)

lemma bind_ret_left [simp]: "bind (ret x) f = f x"
  by (simp add: bind_def ret_def)

lemma bind_ret_right [simp]: "bind m ret = m"
  by (cases m) (auto simp: bind_def ret_def split: sum.splits)

lemma bind_assoc: "bind (bind m f) g = bind m (\<lambda>x. bind (f x) g)"
  by (auto simp: bind_def split: sum.splits)

lemma bind_raise [simp]: "bind (raise e) f = raise e"
  by (simp add: bind_def raise_def)

lemma bind_lift_Inr [simp]: "bind (lift (Inr x)) f = f x"
  by (simp add: bind_def lift_def)

lemma bind_lift_Inl [simp]: "bind (lift (Inl e)) f = raise e"
  by (simp add: bind_def lift_def raise_def)

lemma bind_pair [simp]:
  "bind (tr, Inr x) f = (tr @ fst (f x), snd (f x))"
  "bind (tr, Inl e) f = (tr, Inl e)"
  by (simp_all add: bind_def)

lemma snd_bind [io_simps]:
  "snd (bind m f) = (case snd m of Inl e \<Rightarrow> Inl e | Inr x \<Rightarrow> snd (f x))"
  by (simp add: bind_def split: sum.splits)

lemma fst_bind [io_simps]:
  "fst (bind m f) = (case snd m of Inl e \<Rightarrow> fst m | Inr x \<Rightarrow> fst m @ fst (f x))"
  by (simp add: bind_def split: sum.splits)

lemma bind_Inr_iff:
  "snd (bind m f) = Inr y \<longleftrightarrow> (\<exists>x. snd m = Inr x \<and> snd (f x) = Inr y)"
  by (auto simp: bind_def split: sum.splits)

lemma bind_Inl_iff:
  "snd (bind m f) = Inl e \<longleftrightarrow> snd m = Inl e \<or> (\<exists>x. snd m = Inr x \<and> snd (f x) = Inl e)"
  by (auto simp: bind_def split: sum.splits)

lemma bind_emit [simp]: "bind (emit ev) f = (ev # fst (f ()), snd (f ()))"
  by (simp add: bind_def emit_def)

lemma succeeds_simps [simp]:
  "succeeds (ret x)" "\<not> succeeds (raise e)" "succeeds (emit ev)"
  "succeeds (lift r) = (\<exists>x. r = Inr x)" "succeeds (with_lock m) = succeeds m"
  by (auto simp: succeeds_def split: sum.splits)

lemma succeeds_iff: "succeeds m \<longleftrightarrow> (\<exists>x. snd m = Inr x)"
  by (auto simp: succeeds_def split: sum.splits)

lemma succeeds_bind:
  "succeeds (bind m f) \<longleftrightarrow> (\<exists>x. snd m = Inr x \<and> succeeds (f x))"
  by (auto simp: succeeds_def bind_def split: sum.splits)

lemma succeeds_the_result: "succeeds m \<Longrightarrow> snd m = Inr (the_result m)"
  by (auto simp: succeeds_def the_result_def split: sum.splits)

lemma the_result_Inr [simp]: "snd m = Inr x \<Longrightarrow> the_result m = x"
  by (simp add: the_result_def)

section \<open>Folds\<close>

lemma bind_cong:
  "m = m' \<Longrightarrow> (\<And>x. snd m' = Inr x \<Longrightarrow> f x = g x) \<Longrightarrow> bind m f = bind m' g"
  by (auto simp: bind_def split: sum.splits)

lemma io_fold_append:
  "io_fold f (xs @ ys) s = bind (io_fold f xs s) (io_fold f ys)"
  by (induction xs arbitrary: s) (auto simp: bind_assoc intro!: bind_cong)

lemma io_fold_invariant:
  assumes "\<And>x s s'. x \<in> set xs \<Longrightarrow> P s \<Longrightarrow> snd (f x s) = Inr s' \<Longrightarrow> P s'"
    and "P s" and "snd (io_fold f xs s) = Inr s'"
  shows "P s'"
  using assms
proof (induction xs arbitrary: s)
  case Nil
  then show ?case by simp
next
  case (Cons x xs)
  from Cons.prems(3) obtain s1 where s1: "snd (f x s) = Inr s1"
    and rest: "snd (io_fold f xs s1) = Inr s'"
    by (auto simp: bind_Inr_iff)
  from Cons.prems(1) [of x s s1] Cons.prems(2) s1 have "P s1" by simp
  moreover have "\<And>y t t'. y \<in> set xs \<Longrightarrow> P t \<Longrightarrow> snd (f y t) = Inr t' \<Longrightarrow> P t'"
    using Cons.prems(1) by auto
  ultimately show ?case using Cons.IH [of s1] rest by blast
qed

lemma io_map_Inr_length: "io_map f xs = Inr ys \<Longrightarrow> length ys = length xs"
  by (induction xs arbitrary: ys) (auto split: sum.splits)

lemma io_map_Inr_nth:
  "io_map f xs = Inr ys \<Longrightarrow> i < length xs \<Longrightarrow> f (xs ! i) = Inr (ys ! i)"
proof (induction xs arbitrary: ys i)
  case Nil
  then show ?case by simp
next
  case (Cons x xs)
  then show ?case by (cases i) (auto split: sum.splits)
qed

lemma io_map_total:
  "(\<And>x. x \<in> set xs \<Longrightarrow> f x = Inr (g x)) \<Longrightarrow> io_map f xs = Inr (map g xs)"
  by (induction xs) simp_all

lemma io_map_Nil_iff [simp]: "io_map f xs = Inr [] \<longleftrightarrow> xs = []"
  by (cases xs) (auto split: sum.splits)

section \<open>Lemmas on the lock\<close>

lemma lock_run_append:
  "lock_run (es @ fs) n = (case lock_run es n of None \<Rightarrow> None | Some k \<Rightarrow> lock_run fs k)"
  by (induction es n rule: lock_run.induct) (auto split: nat.splits)

lemma lock_run_input_calls [simp]: "lock_run (map (InputCall r) cs) n = Some n"
  by (induction cs) simp_all

lemma lock_run_form_calls [simp]: "lock_run (map FormCall cs) n = Some n"
  by (induction cs) simp_all

lemma lock_balanced_Nil [simp]: "lock_balanced []"
  by (simp add: lock_balanced_def)

lemma lock_balanced_append:
  "lock_balanced es \<Longrightarrow> lock_balanced fs \<Longrightarrow> lock_balanced (es @ fs)"
  by (simp add: lock_balanced_def lock_run_append)

lemma lock_balanced_with_lock:
  "lock_run (fst m) 1 = Some 1 \<Longrightarrow> lock_balanced (fst (with_lock m))"
  by (simp add: lock_balanced_def lock_run_append)

lemma lock_balanced_bind:
  "lock_balanced (fst m) \<Longrightarrow> (\<And>x. snd m = Inr x \<Longrightarrow> lock_balanced (fst (f x))) \<Longrightarrow>
   lock_balanced (fst (bind m f))"
  by (auto simp: fst_bind lock_balanced_append split: sum.splits)

lemma draws_locked_append:
  "lock_run es n = Some k \<Longrightarrow>
   draws_locked (es @ fs) n \<longleftrightarrow> draws_locked es n \<and> draws_locked fs k"
  by (induction es n rule: lock_run.induct) (auto split: nat.splits)

lemma draws_locked_input_calls [simp]:
  "draws_locked (map (InputCall r) cs) n \<longleftrightarrow> 0 < n \<or> (\<forall>c \<in> set cs. is_ext c)"
  by (induction cs) auto

section \<open>Lemmas: disciplined computations\<close>

lemma lock_run_mono: "lock_run es n = Some k \<Longrightarrow> lock_run es (n + j) = Some (k + j)"
  by (induction es n rule: lock_run.induct) (auto split: nat.splits)

lemma draws_locked_mono:
  "lock_run es n = Some k \<Longrightarrow> draws_locked es n \<Longrightarrow> draws_locked es (n + j)"
  by (induction es n rule: lock_run.induct) (auto split: nat.splits)

lemma disciplined_simps [simp]:
  "disciplined (ret x)" "disciplined (raise e)" "disciplined (lift v)"
  "disciplined ([], r)"
  by (simp_all add: disciplined_def ret_def raise_def lift_def)

lemma disciplined_bind [intro]:
  assumes "disciplined m" and "\<And>x. snd m = Inr x \<Longrightarrow> disciplined (f x)"
  shows "disciplined (bind m f)"
  using assms
  by (auto simp: disciplined_def fst_bind lock_balanced_def lock_run_append
      draws_locked_append [where k = 0] split: sum.splits)

lemma disciplined_Cons [simp]:
  "disciplined (InputCall r c # es, v) \<longleftrightarrow> is_ext c \<and> disciplined (es, v)"
  "disciplined (FormCall c # es, v) \<longleftrightarrow> is_ext c \<and> disciplined (es, v)"
  "disciplined (WinCall w c # es, v) \<longleftrightarrow> is_ext c \<and> disciplined (es, v)"
  "disciplined (OnCancel fm # es, v) \<longleftrightarrow> disciplined (es, v)"
  "disciplined (OnSend fm # es, v) \<longleftrightarrow> disciplined (es, v)"
  by (simp_all add: disciplined_def lock_balanced_def)

lemma disciplined_if:
  "disciplined a \<Longrightarrow> disciplined b \<Longrightarrow> disciplined (if c then a else b)"
  by simp

section \<open>Lemmas: quiet computations\<close>

lemma quiet_simps [simp]:
  "quiet (ret x)" "quiet (raise e)" "quiet (lift v)" "quiet ([], r)"
  "quiet (emit ev) \<longleftrightarrow> ev \<noteq> Acquire \<and> ev \<noteq> Release"
  by (simp_all add: quiet_def ret_def raise_def lift_def emit_def)

lemma quiet_bind:
  assumes "quiet m" and "\<And>x. snd m = Inr x \<Longrightarrow> quiet (f x)"
  shows "quiet (bind m f)"
  using assms by (auto simp: quiet_def fst_bind split: sum.splits)

lemma quiet_if: "quiet a \<Longrightarrow> quiet b \<Longrightarrow> quiet (if c then a else b)"
  by simp

lemma quiet_io_fold: "(\<And>x s. quiet (f x s)) \<Longrightarrow> quiet (io_fold f xs s)"
  by (induction xs arbitrary: s) (auto intro: quiet_bind)

lemma quiet_run:
  assumes "list_all (\<lambda>e. e \<noteq> Acquire \<and> e \<noteq> Release) es"
  shows "lock_run es n = Some n" and "0 < n \<Longrightarrow> draws_locked es n"
  using assms by (induction es n rule: lock_run.induct) auto

lemma disciplined_with_lock_quiet: "quiet m \<Longrightarrow> disciplined (with_lock m)"
  by (simp add: quiet_def disciplined_def lock_balanced_def lock_run_append quiet_run
      draws_locked_append [where k = 1])

lemma disciplined_io_fold:
  "(\<And>x s. disciplined (f x s)) \<Longrightarrow> disciplined (io_fold f xs s)"
  by (induction xs arbitrary: s) (auto intro: disciplined_bind)

end
