(* ===== verification/Widgets.thy ===== *)
theory Widgets
  imports Effects
begin

text \<open>
  The input widgets of \<^verbatim>\<open>src/src/data_forms.py\<close>: the base class \<^verbatim>\<open>FieldInput\<close> and
  its subclasses \<^verbatim>\<open>DummyInput\<close>, \<^verbatim>\<open>BooleanWin\<close>, \<^verbatim>\<open>ListMultiWin\<close>, \<^verbatim>\<open>ListSingleWin\<close>,
  \<^verbatim>\<open>TextSingleWin\<close> and \<^verbatim>\<open>TextPrivateWin\<close>.

  Each class is a record extending \<open>field_input\<close>; an object of any of them is a
  value of the datatype \<open>input\<close>.  Each method is one definition named
  \<open>Class_method\<close> over the record of its class; \<open>is_dummy\<close>, \<open>refresh\<close>,
  \<open>set_color\<close>, \<open>resize_input\<close>, \<open>do_command\<close> and \<open>reply\<close> over \<open>input\<close> are Python's
  method dispatch.

  Attributes inherited from \<^verbatim>\<open>windows.Win\<close>: only \<open>width\<close> is read by the module
  (in the \<^verbatim>\<open>refresh\<close> methods).  The model stores it in \<open>field_input\<close>, 0 until
  \<^verbatim>\<open>resize\<close> sets it.  The key handling and the drawing of the text inputs are
  inherited from \<^verbatim>\<open>windows.Input\<close>, outside the module: \<open>do_command\<close> takes the
  line editor as a parameter \<open>ed\<close> (from key, text and cursor to text and cursor)
  and records the call as \<open>ExtCommand\<close>; their \<open>refresh\<close> records \<open>ExtRefresh\<close>.
  \<^verbatim>\<open>TextPrivateWin.rewrite_text\<close>, which that library calls to draw the masked text,
  is a definition of its own, with the attribute \<open>line_pos\<close> of \<^verbatim>\<open>windows.Input\<close>
  and the column that \<^verbatim>\<open>getyx\<close> returns as parameters.
\<close>

section \<open>State of the widgets\<close>

record field_input =
  fi_field :: field_ref
  color :: int
  width :: int

record boolean_win = field_input +
  bw_last_key :: key
  bw_value :: bool

record list_multi_win = field_input +
  lm_options :: "(form_option \<times> bool) list"
  lm_val_pos :: int

record list_single_win = field_input +
  ls_options :: "form_option list"
  ls_val_pos :: int

record text_single_win = field_input +
  ts_text :: string
  ts_pos :: int

datatype input =
    DummyInput field_input
  | BooleanWin boolean_win
  | ListMultiWin list_multi_win
  | ListSingleWin list_single_win
  | TextSingleWin text_single_win
  | TextPrivateWin text_single_win

type_synonym line_editor = "key \<Rightarrow> string \<times> int \<Rightarrow> string \<times> int"

text \<open>The attributes of the base class, read and written on any widget.\<close>

fun fld :: "input \<Rightarrow> field_ref" where
  "fld (DummyInput d) = fi_field d"
| "fld (BooleanWin b) = fi_field b"
| "fld (ListMultiWin m) = fi_field m"
| "fld (ListSingleWin s) = fi_field s"
| "fld (TextSingleWin t) = fi_field t"
| "fld (TextPrivateWin t) = fi_field t"

fun color_of :: "input \<Rightarrow> int" where
  "color_of (DummyInput d) = color d"
| "color_of (BooleanWin b) = color b"
| "color_of (ListMultiWin m) = color m"
| "color_of (ListSingleWin s) = color s"
| "color_of (TextSingleWin t) = color t"
| "color_of (TextPrivateWin t) = color t"

fun width_of :: "input \<Rightarrow> int" where
  "width_of (DummyInput d) = width d"
| "width_of (BooleanWin b) = width b"
| "width_of (ListMultiWin m) = width m"
| "width_of (ListSingleWin s) = width s"
| "width_of (TextSingleWin t) = width t"
| "width_of (TextPrivateWin t) = width t"

fun upd_color :: "int \<Rightarrow> input \<Rightarrow> input" where
  "upd_color c (DummyInput d) = DummyInput (d\<lparr>color := c\<rparr>)"
| "upd_color c (BooleanWin b) = BooleanWin (b\<lparr>color := c\<rparr>)"
| "upd_color c (ListMultiWin m) = ListMultiWin (m\<lparr>color := c\<rparr>)"
| "upd_color c (ListSingleWin s) = ListSingleWin (s\<lparr>color := c\<rparr>)"
| "upd_color c (TextSingleWin t) = TextSingleWin (t\<lparr>color := c\<rparr>)"
| "upd_color c (TextPrivateWin t) = TextPrivateWin (t\<lparr>color := c\<rparr>)"

fun upd_width :: "int \<Rightarrow> input \<Rightarrow> input" where
  "upd_width w (DummyInput d) = DummyInput (d\<lparr>width := w\<rparr>)"
| "upd_width w (BooleanWin b) = BooleanWin (b\<lparr>width := w\<rparr>)"
| "upd_width w (ListMultiWin m) = ListMultiWin (m\<lparr>width := w\<rparr>)"
| "upd_width w (ListSingleWin s) = ListSingleWin (s\<lparr>width := w\<rparr>)"
| "upd_width w (TextSingleWin t) = TextSingleWin (t\<lparr>width := w\<rparr>)"
| "upd_width w (TextPrivateWin t) = TextPrivateWin (t\<lparr>width := w\<rparr>)"

text \<open>The two colour pairs the module uses.\<close>

abbreviation unfocused :: int where "unfocused \<equiv> 14"
abbreviation focused :: int where "focused \<equiv> 13"

text \<open>A list of calls on the window of the input attached to field \<open>r\<close>.\<close>

definition calls :: "field_ref \<Rightarrow> call list \<Rightarrow> unit io" where
  "calls r cs = (map (InputCall r) cs, Inr ())"

text \<open>The glyphs the widgets draw, as the UTF-8 bytes of the source's literals.\<close>

definition arrow_right :: string where
  "arrow_right = [CHR 0xE2, CHR 0x86, CHR 0x92]"

definition arrow_left :: string where
  "arrow_left = [CHR 0xE2, CHR 0x86, CHR 0x90]"

definition check_mark :: string where
  "check_mark = [CHR 0xE2, CHR 0x9C, CHR 0x94]"

definition ballot_box :: string where
  "ballot_box = [CHR 0xE2, CHR 0x98, CHR 0x90]"

section \<open>FieldInput\<close>

definition FieldInput_init :: "field_ref \<Rightarrow> field_input" where
  [form_defs]: "FieldInput_init r = \<lparr>fi_field = r, color = unfocused, width = 0\<rparr>"

definition update_field_value :: "input \<Rightarrow> pyval \<Rightarrow> unit io" where
  [form_defs]: "update_field_value w v = raise NotImplementedError"

definition FieldInput_reply :: "form \<Rightarrow> form io" where
  [form_defs]: "FieldInput_reply fm = raise NotImplementedError"

section \<open>DummyInput\<close>

definition DummyInput_init :: "field_ref \<Rightarrow> field \<Rightarrow> field_input" where
  [form_defs]: "DummyInput_init r f = FieldInput_init r"

text \<open>
  \<^verbatim>\<open>DummyInput.do_command(self)\<close> takes no key, so the call
  \<^verbatim>\<open>do_command(key)\<close> that \<^verbatim>\<open>FormWin.on_input\<close> makes raises \<^verbatim>\<open>TypeError\<close>.
\<close>

definition DummyInput_do_command :: "key \<Rightarrow> field_input \<Rightarrow> field_input io" where
  [form_defs]: "DummyInput_do_command k d = raise TypeError"

definition DummyInput_refresh :: "field_input \<Rightarrow> unit io" where
  [form_defs]: "DummyInput_refresh d = ret ()"

section \<open>BooleanWin\<close>

definition BooleanWin_init :: "field_ref \<Rightarrow> field \<Rightarrow> boolean_win" where
  [form_defs]: "BooleanWin_init r f =
     \<lparr>fi_field = r, color = unfocused, width = 0,
      bw_last_key = KEY_RIGHT, bw_value = py_bool (getValue f)\<rparr>"

definition BooleanWin_refresh :: "boolean_win \<Rightarrow> unit io" where
  "BooleanWin_refresh b =
     with_lock (calls (fi_field b)
       [Attron (color b),
        Addnstr 0 0 (py_repeat '' '' 8) (width b),
        Addstr 0 2 (py_str_bool (bw_value b)),
        Addstr 0 8 arrow_right,
        Addstr 0 0 arrow_left,
        if bw_last_key b = KEY_RIGHT then Addstr 0 8 [] else Addstr 0 0 [],
        Attroff (color b),
        Refresh])"

definition BooleanWin_do_command :: "key \<Rightarrow> boolean_win \<Rightarrow> boolean_win io" where
  "BooleanWin_do_command k b =
     (let b' = (if k = KEY_LEFT \<or> k = KEY_RIGHT
                then b\<lparr>bw_value := \<not> bw_value b, bw_last_key := k\<rparr> else b)
      in bind (BooleanWin_refresh b') (\<lambda>_. ret b'))"

definition BooleanWin_reply :: "boolean_win \<Rightarrow> form \<Rightarrow> form io" where
  "BooleanWin_reply b fm =
     ret (upd_field (fi_field b) (\<lambda>f. setAnswer (PBool (bw_value b)) (set_label [] f)) fm)"

section \<open>ListMultiWin\<close>

definition ListMultiWin_init :: "field_ref \<Rightarrow> field \<Rightarrow> error + list_multi_win" where
  "ListMultiWin_init r f =
     (let values = getValue f in
      case io_map (\<lambda>option. case py_in (o_value option) values of
                      Inl e \<Rightarrow> Inl e | Inr b \<Rightarrow> Inr (option, if b then True else False))
             (getOptions f) of
        Inl e \<Rightarrow> Inl e
      | Inr os \<Rightarrow> Inr \<lparr>fi_field = r, color = unfocused, width = 0,
                        lm_options = os, lm_val_pos = 0\<rparr>)"

text \<open>
  \<^verbatim>\<open>self.options[self.val_pos][1] = not self.options[self.val_pos][1]\<close>: the flag
  of the option under the cursor is negated; an empty option list raises.
\<close>

definition toggle_at :: "('a \<times> bool) list \<Rightarrow> int \<Rightarrow> error + ('a \<times> bool) list" where
  "toggle_at os i =
     (case py_index os i of
        Inl e \<Rightarrow> Inl e
      | Inr k \<Rightarrow> Inr (os[k := (fst (os ! k), \<not> snd (os ! k))]))"

text \<open>
  The label is centred with \<^verbatim>\<open>len(option)\<close>, where \<^verbatim>\<open>option\<close> is the two-element
  list of the option and its flag: the offset is \<open>2 div 2\<close> whatever the label.
\<close>

definition ListMultiWin_refresh :: "list_multi_win \<Rightarrow> unit io" where
  "ListMultiWin_refresh m =
     with_lock
       (bind (calls (fi_field m)
                ([Attron (color m), Addnstr 0 0 (py_repeat '' '' (width m)) (width m)] @
                 (if lm_val_pos m > 0 then [Addstr 0 0 arrow_left] else []) @
                 (if lm_val_pos m < int (length (lm_options m)) - 1
                  then [Addstr 0 (width m - 1) arrow_right] else [])))
          (\<lambda>_. bind (lift (py_get (lm_options m) (lm_val_pos m)))
          (\<lambda>option. calls (fi_field m)
                [Addstr 0 (width m div 2 - 2 div 2) (o_label (fst option)),
                 Addstr 0 2 (if snd option then check_mark else ballot_box),
                 Attroff (color m),
                 Refresh])))"

definition ListMultiWin_do_command :: "key \<Rightarrow> list_multi_win \<Rightarrow> list_multi_win io" where
  "ListMultiWin_do_command k m =
     (if k = KEY_LEFT then
        (let m' = (if lm_val_pos m > 0 then m\<lparr>lm_val_pos := lm_val_pos m - 1\<rparr> else m)
         in bind (ListMultiWin_refresh m') (\<lambda>_. ret m'))
      else if k = KEY_RIGHT then
        (let m' = (if lm_val_pos m < int (length (lm_options m)) - 1
                   then m\<lparr>lm_val_pos := lm_val_pos m + 1\<rparr> else m)
         in bind (ListMultiWin_refresh m') (\<lambda>_. ret m'))
      else if k = '' '' then
        bind (lift (toggle_at (lm_options m) (lm_val_pos m)))
          (\<lambda>os. let m' = m\<lparr>lm_options := os\<rparr>
                 in bind (ListMultiWin_refresh m') (\<lambda>_. ret m'))
      else ret m)"

definition ListMultiWin_reply :: "list_multi_win \<Rightarrow> form \<Rightarrow> form io" where
  "ListMultiWin_reply m fm =
     (let values = map (\<lambda>option. o_value (fst option))
                     (filter (\<lambda>option. snd option = True) (lm_options m))
      in ret (upd_field (fi_field m)
                (\<lambda>f. setAnswer (PList values) (delOptions (set_label [] f))) fm))"

section \<open>ListSingleWin\<close>

text \<open>
  The loop \<^verbatim>\<open>for i, option in enumerate(self.options)\<close>: \<open>i\<close> is the index of the
  next option, \<open>p\<close> the value of \<^verbatim>\<open>val_pos\<close> so far.
\<close>

fun find_val_pos :: "pyval \<Rightarrow> form_option list \<Rightarrow> int \<Rightarrow> int \<Rightarrow> int" where
  "find_val_pos v [] i p = p"
| "find_val_pos v (option # os) i p =
     find_val_pos v os (i + 1) (if py_eq_str v (o_value option) then i else p)"

definition ListSingleWin_init :: "field_ref \<Rightarrow> field \<Rightarrow> list_single_win" where
  "ListSingleWin_init r f =
     \<lparr>fi_field = r, color = unfocused, width = 0,
      ls_options = getOptions f,
      ls_val_pos = find_val_pos (getValue f) (getOptions f) 0 0\<rparr>"

definition ListSingleWin_refresh :: "list_single_win \<Rightarrow> unit io" where
  "ListSingleWin_refresh s =
     with_lock
       (bind (calls (fi_field s)
                ([Attron (color s), Addnstr 0 0 (py_repeat '' '' (width s)) (width s)] @
                 (if ls_val_pos s > 0 then [Addstr 0 0 arrow_left] else []) @
                 (if ls_val_pos s < int (length (ls_options s)) - 1
                  then [Addstr 0 (width s - 1) arrow_right] else [])))
          (\<lambda>_. bind (lift (py_get (ls_options s) (ls_val_pos s)))
          (\<lambda>option. calls (fi_field s)
                [Addstr 0 (width s div 2 - int (length (o_label option)) div 2)
                   (o_label option),
                 Attroff (color s),
                 Refresh])))"

definition ListSingleWin_do_command :: "key \<Rightarrow> list_single_win \<Rightarrow> list_single_win io" where
  "ListSingleWin_do_command k s =
     (if k = KEY_LEFT then
        (let s' = (if ls_val_pos s > 0 then s\<lparr>ls_val_pos := ls_val_pos s - 1\<rparr> else s)
         in bind (ListSingleWin_refresh s') (\<lambda>_. ret s'))
      else if k = KEY_RIGHT then
        (let s' = (if ls_val_pos s < int (length (ls_options s)) - 1
                   then s\<lparr>ls_val_pos := ls_val_pos s + 1\<rparr> else s)
         in bind (ListSingleWin_refresh s') (\<lambda>_. ret s'))
      else ret s)"

text \<open>
  The label and the options of the field are cleared before the option under the
  cursor is read, so an empty option list raises after the field was changed; the
  exception is the whole result.
\<close>

definition ListSingleWin_reply :: "list_single_win \<Rightarrow> form \<Rightarrow> form io" where
  "ListSingleWin_reply s fm =
     (let fm' = upd_field (fi_field s) (\<lambda>f. delOptions (set_label [] f)) fm
      in bind (lift (py_get (ls_options s) (ls_val_pos s)))
           (\<lambda>option. ret (upd_field (fi_field s) (setAnswer (PStr (o_value option))) fm')))"

section \<open>TextSingleWin and TextPrivateWin\<close>

text \<open>
  \<^verbatim>\<open>field.getValue() if isinstance(field.getValue(), str) else ""\<close>.
\<close>

fun str_or_empty :: "pyval \<Rightarrow> string" where
  "str_or_empty (PStr s) = s"
| "str_or_empty v = []"

definition TextSingleWin_init :: "field_ref \<Rightarrow> field \<Rightarrow> text_single_win" where
  "TextSingleWin_init r f =
     (let text = str_or_empty (getValue f)
      in \<lparr>fi_field = r, color = unfocused, width = 0,
          ts_text = text, ts_pos = int (length text)\<rparr>)"

definition TextPrivateWin_init :: "field_ref \<Rightarrow> field \<Rightarrow> text_single_win" where
  [form_defs]: "TextPrivateWin_init r f = TextSingleWin_init r f"

definition TextSingleWin_refresh :: "text_single_win \<Rightarrow> unit io" where
  "TextSingleWin_refresh t = calls (fi_field t) [ExtRefresh (ts_text t) (ts_pos t) (color t)]"

text \<open>
  \<^verbatim>\<open>TextPrivateWin.rewrite_text\<close>, the method that \<^verbatim>\<open>refresh\<close> and the key handlers
  inherited from \<^verbatim>\<open>windows.Input\<close> call to draw the text.  \<open>line_pos\<close> is the
  attribute of \<^verbatim>\<open>windows.Input\<close> that holds the index of the first character shown
  (the module reads it and never writes it), and \<open>x\<close> the column that \<^verbatim>\<open>getyx\<close>
  returns.
\<close>

definition TextPrivateWin_rewrite_text :: "int \<Rightarrow> int \<Rightarrow> text_single_win \<Rightarrow> unit io" where
  "TextPrivateWin_rewrite_text line_pos x t =
     with_lock (calls (fi_field t)
       ([Erase] @
        (if color t \<noteq> 0 then [Attron (color t)] else []) @
        [AddstrHere (py_repeat ''*''
           (int (length (py_slice (ts_text t) line_pos (line_pos + width t - 1)))))] @
        (if color t \<noteq> 0
         then [Getyx, AddnstrHere (py_repeat '' '' (width t - x)) (width t - x) (color t)]
         else []) @
        [Addstr 0 (ts_pos t) []] @
        (if color t \<noteq> 0 then [Attroff (color t)] else []) @
        [Refresh]))"

definition TextSingleWin_do_command ::
    "line_editor \<Rightarrow> key \<Rightarrow> text_single_win \<Rightarrow> text_single_win io" where
  "TextSingleWin_do_command ed k t =
     bind (calls (fi_field t) [ExtCommand k])
       (\<lambda>_. ret (t\<lparr>ts_text := fst (ed k (ts_text t, ts_pos t)),
                    ts_pos := snd (ed k (ts_text t, ts_pos t))\<rparr>))"

definition TextSingleWin_reply :: "text_single_win \<Rightarrow> form \<Rightarrow> form io" where
  "TextSingleWin_reply t fm =
     ret (upd_field (fi_field t) (\<lambda>f. setAnswer (PStr (ts_text t)) (set_label [] f)) fm)"

section \<open>Method dispatch\<close>

fun is_dummy :: "input \<Rightarrow> bool" where
  "is_dummy (DummyInput d) = True"
| "is_dummy w = False"

fun refresh :: "input \<Rightarrow> unit io" where
  "refresh (DummyInput d) = DummyInput_refresh d"
| "refresh (BooleanWin b) = BooleanWin_refresh b"
| "refresh (ListMultiWin m) = ListMultiWin_refresh m"
| "refresh (ListSingleWin s) = ListSingleWin_refresh s"
| "refresh (TextSingleWin t) = TextSingleWin_refresh t"
| "refresh (TextPrivateWin t) = TextSingleWin_refresh t"

definition set_color :: "int \<Rightarrow> input \<Rightarrow> input io" where
  "set_color c w = (let w' = upd_color c w in bind (refresh w') (\<lambda>_. ret w'))"

definition resize_input :: "int \<Rightarrow> int \<Rightarrow> int \<Rightarrow> int \<Rightarrow> input \<Rightarrow> input io" where
  "resize_input h wd y x w =
     bind (calls (fld w) [ExtResize h wd y x]) (\<lambda>_. ret (upd_width wd w))"

fun do_command :: "line_editor \<Rightarrow> key \<Rightarrow> input \<Rightarrow> input io" where
  "do_command ed k (DummyInput d) = bind (DummyInput_do_command k d) (\<lambda>d'. ret (DummyInput d'))"
| "do_command ed k (BooleanWin b) = bind (BooleanWin_do_command k b) (\<lambda>b'. ret (BooleanWin b'))"
| "do_command ed k (ListMultiWin m) =
     bind (ListMultiWin_do_command k m) (\<lambda>m'. ret (ListMultiWin m'))"
| "do_command ed k (ListSingleWin s) =
     bind (ListSingleWin_do_command k s) (\<lambda>s'. ret (ListSingleWin s'))"
| "do_command ed k (TextSingleWin t) =
     bind (TextSingleWin_do_command ed k t) (\<lambda>t'. ret (TextSingleWin t'))"
| "do_command ed k (TextPrivateWin t) =
     bind (TextSingleWin_do_command ed k t) (\<lambda>t'. ret (TextPrivateWin t'))"

fun reply :: "input \<Rightarrow> form \<Rightarrow> form io" where
  "reply (DummyInput d) fm = FieldInput_reply fm"
| "reply (BooleanWin b) fm = BooleanWin_reply b fm"
| "reply (ListMultiWin m) fm = ListMultiWin_reply m fm"
| "reply (ListSingleWin s) fm = ListSingleWin_reply s fm"
| "reply (TextSingleWin t) fm = TextSingleWin_reply t fm"
| "reply (TextPrivateWin t) fm = TextSingleWin_reply t fm"

section \<open>Specification of the widgets\<close>

text \<open>
  \<open>input_inv\<close>: the cursor of a list widget is a clamped cursor into its options.
  \<open>renderable\<close>: the option under the cursor exists, so \<open>refresh\<close> can draw it.
  \<open>answer\<close> is the value a widget stands for, and \<open>answered\<close> what committing it
  does to a field: the contract that \<open>reply\<close> implements (\<open>reply_refines\<close>).
\<close>

fun input_inv :: "input \<Rightarrow> bool" where
  "input_inv (ListMultiWin m) = cursor_ok (lm_options m) (lm_val_pos m)"
| "input_inv (ListSingleWin s) = cursor_ok (ls_options s) (ls_val_pos s)"
| "input_inv w = True"

fun renderable :: "input \<Rightarrow> bool" where
  "renderable (ListMultiWin m) = index_ok (lm_options m) (lm_val_pos m)"
| "renderable (ListSingleWin s) = index_ok (ls_options s) (ls_val_pos s)"
| "renderable w = True"

fun clears_options :: "input \<Rightarrow> bool" where
  "clears_options (ListMultiWin m) = True"
| "clears_options (ListSingleWin s) = True"
| "clears_options w = False"

fun answer :: "input \<Rightarrow> error + pyval" where
  "answer (DummyInput d) = Inl NotImplementedError"
| "answer (BooleanWin b) = Inr (PBool (bw_value b))"
| "answer (ListMultiWin m) = Inr (PList (map (o_value \<circ> fst) (filter snd (lm_options m))))"
| "answer (ListSingleWin s) =
     map_sum id (PStr \<circ> o_value) (py_get (ls_options s) (ls_val_pos s))"
| "answer (TextSingleWin t) = Inr (PStr (ts_text t))"
| "answer (TextPrivateWin t) = Inr (PStr (ts_text t))"

definition answered :: "input \<Rightarrow> pyval \<Rightarrow> field \<Rightarrow> field" where
  "answered w v f =
     f\<lparr>f_label := [], f_value := v,
       f_options := (if clears_options w then [] else f_options f)\<rparr>"

text \<open>
  What the masked input shows: \<open>shown_chars\<close> is the number of characters of the
  text that fall into the window, and \<open>written\<close> the string that an event writes
  on a window.
\<close>

definition shown_chars :: "int \<Rightarrow> text_single_win \<Rightarrow> nat" where
  "shown_chars line_pos t = length (py_slice (ts_text t) line_pos (line_pos + width t - 1))"

fun written :: "event \<Rightarrow> string" where
  "written (InputCall r (Addnstr y x s n)) = s"
| "written (InputCall r (Addstr y x s)) = s"
| "written (InputCall r (AddstrHere s)) = s"
| "written (InputCall r (AddnstrHere s n a)) = s"
| "written e = []"

definition secret_input :: text_single_win where
  "secret_input =
     \<lparr>fi_field = 0, color = focused, width = 5, ts_text = ''secret'', ts_pos = 4\<rparr>"

section \<open>Lemmas: attributes of the base class\<close>

lemma calls_simps [simp]:
  "fst (calls r cs) = map (InputCall r) cs" "snd (calls r cs) = Inr ()"
  by (simp_all add: calls_def)

lemma succeeds_calls [simp]: "succeeds (calls r cs)"
  by (simp add: succeeds_def)

lemma bind_calls [simp]:
  "bind (calls r cs) f = (map (InputCall r) cs @ fst (f ()), snd (f ()))"
  by (simp add: bind_def calls_def)

lemma upd_color_attrs [simp]:
  "fld (upd_color c w) = fld w" "color_of (upd_color c w) = c"
  "width_of (upd_color c w) = width_of w" "is_dummy (upd_color c w) = is_dummy w"
  by (cases w; simp)+

lemma upd_width_attrs [simp]:
  "fld (upd_width n w) = fld w" "color_of (upd_width n w) = color_of w"
  "width_of (upd_width n w) = n" "is_dummy (upd_width n w) = is_dummy w"
  by (cases w; simp)+

lemma upd_color_idem [simp]: "upd_color c (upd_color d w) = upd_color c w"
  by (cases w) simp_all

lemma input_inv_upd [simp]:
  "input_inv (upd_color c w) = input_inv w" "input_inv (upd_width n w) = input_inv w"
  by (cases w; simp)+

lemma renderable_upd [simp]:
  "renderable (upd_color c w) = renderable w" "renderable (upd_width n w) = renderable w"
  by (cases w; simp)+

lemma answer_upd [simp]:
  "answer (upd_color c w) = answer w" "answer (upd_width n w) = answer w"
  by (cases w; simp)+

lemma clears_options_upd [simp]:
  "clears_options (upd_color c w) = clears_options w"
  "clears_options (upd_width n w) = clears_options w"
  by (cases w; simp)+

section \<open>Lemmas: rendering\<close>

lemmas refresh_defs = DummyInput_refresh_def BooleanWin_refresh_def ListMultiWin_refresh_def
  ListSingleWin_refresh_def TextSingleWin_refresh_def

lemma refresh_result: "snd (refresh w) = (if renderable w then Inr () else Inl IndexError)"
  by (cases w)
    (auto simp: refresh_defs io_simps py_get_succeeds_iff [symmetric]
      split: sum.splits dest: py_get_error)

lemma refresh_dummy [simp]: "is_dummy w \<Longrightarrow> refresh w = ret ()"
  by (cases w) (simp_all add: refresh_defs)

lemma set_color_result:
  "snd (set_color c w) = (if renderable w then Inr (upd_color c w) else Inl IndexError)"
  by (simp add: set_color_def io_simps refresh_result Let_def)

lemma set_color_Inr_iff:
  "snd (set_color c w) = Inr w' \<longleftrightarrow> renderable w \<and> w' = upd_color c w"
  by (auto simp: set_color_result)

lemma set_color_trace: "fst (set_color c w) = fst (refresh (upd_color c w))"
  by (simp add: set_color_def io_simps refresh_result Let_def split: sum.splits)

lemma resize_input_result [simp]: "snd (resize_input h n y x w) = Inr (upd_width n w)"
  by (simp add: resize_input_def)

lemma refresh_lock_run: "lock_run (fst (refresh w)) n = Some n"
  by (cases w) (auto simp: refresh_defs io_simps lock_run_append split: sum.splits)

lemma refresh_draws_locked: "draws_locked (fst (refresh w)) n"
  by (cases w)
    (auto simp: refresh_defs io_simps draws_locked_append [where k = "Suc n"]
      split: sum.splits)

section \<open>Lemmas: keys\<close>

lemma toggle_at_length: "toggle_at os i = Inr os' \<Longrightarrow> length os' = length os"
  by (auto simp: toggle_at_def split: sum.splits)

lemma toggle_at_in_range:
  "0 \<le> i \<Longrightarrow> i < int (length os) \<Longrightarrow>
   toggle_at os i = Inr (os[nat i := (fst (os ! nat i), \<not> snd (os ! nat i))])"
  by (simp add: toggle_at_def py_index_in_range)

lemmas do_command_defs = DummyInput_do_command_def BooleanWin_do_command_def
  ListMultiWin_do_command_def ListSingleWin_do_command_def TextSingleWin_do_command_def

lemma do_command_dummy [simp]: "is_dummy w \<Longrightarrow> do_command ed k w = raise TypeError"
  by (cases w) (simp_all add: do_command_defs)

lemma do_command_attrs:
  assumes "snd (do_command ed k w) = Inr w'"
  shows "fld w' = fld w" and "color_of w' = color_of w" and "width_of w' = width_of w"
    and "is_dummy w' = is_dummy w"
  using assms
  by (cases w; auto simp: do_command_defs io_simps Let_def split: sum.splits if_splits)+

lemma do_command_inv:
  assumes "snd (do_command ed k w) = Inr w'" and "input_inv w"
  shows "input_inv w'"
  using assms
  by (cases w)
    (auto simp: do_command_defs io_simps Let_def cursor_ok_def
      split: sum.splits if_splits dest: toggle_at_length)

lemma do_command_renderable:
  assumes "snd (do_command ed k w) = Inr w'" and "renderable w"
  shows "renderable w'"
  using assms
  by (cases w)
    (auto simp: do_command_defs io_simps Let_def index_ok_def
      split: sum.splits if_splits dest: toggle_at_length)

lemma do_command_returns:
  assumes "renderable w" and "input_inv w" and "\<not> is_dummy w"
  shows "\<exists>w'. snd (do_command ed k w) = Inr w'"
proof -
  have rm: "snd (ListMultiWin_refresh m') =
      (if index_ok (lm_options m') (lm_val_pos m') then Inr () else Inl IndexError)" for m'
    using refresh_result [of "ListMultiWin m'"] by simp
  have rs: "snd (ListSingleWin_refresh s') =
      (if index_ok (ls_options s') (ls_val_pos s') then Inr () else Inl IndexError)" for s'
    using refresh_result [of "ListSingleWin s'"] by simp
  have rb: "snd (BooleanWin_refresh b) = Inr ()" for b
    using refresh_result [of "BooleanWin b"] by simp
  from assms show ?thesis
    by (cases w)
      (auto simp: do_command_defs snd_bind rm rs rb Let_def index_ok_def cursor_ok_def
        toggle_at_in_range split: sum.splits)
qed

section \<open>Lemmas: reply\<close>

lemmas reply_defs = FieldInput_reply_def BooleanWin_reply_def ListMultiWin_reply_def
  ListSingleWin_reply_def TextSingleWin_reply_def

lemma reply_refines:
  "reply w fm =
     (case answer w of Inl e \<Rightarrow> raise e
      | Inr v \<Rightarrow> ret (upd_field (fld w) (answered w v) fm))"
proof (cases w)
  case (ListSingleWin s)
  then show ?thesis
    by (cases "py_get (ls_options s) (ls_val_pos s)")
      (auto simp: reply_defs answered_def form_defs upd_field_upd_field intro!: upd_field_cong)
qed (auto simp: reply_defs answered_def form_defs comp_def intro!: upd_field_cong)

lemma reply_trace [simp]: "fst (reply w fm) = []"
  by (simp add: reply_refines split: sum.splits)

lemma reply_Inr_iff:
  "snd (reply w fm) = Inr fm' \<longleftrightarrow>
     (\<exists>v. answer w = Inr v \<and> fm' = upd_field (fld w) (answered w v) fm)"
  by (auto simp: reply_refines split: sum.splits)

lemma answer_succeeds_iff:
  "(\<exists>v. answer w = Inr v) \<longleftrightarrow>
     \<not> is_dummy w \<and> (\<forall>s. w = ListSingleWin s \<longrightarrow> index_ok (ls_options s) (ls_val_pos s))"
  by (cases w) (auto simp: py_get_succeeds_iff [symmetric] map_sum_def split: sum.splits)

lemma answer_renderable: "renderable w \<Longrightarrow> \<not> is_dummy w \<Longrightarrow> \<exists>v. answer w = Inr v"
  by (auto simp: answer_succeeds_iff)

lemma reply_frame:
  assumes "snd (reply w fm) = Inr fm'"
  shows "q \<noteq> fld w \<Longrightarrow> field_at fm' q = field_at fm q"
    and "field_names fm' = field_names fm"
    and "fm_title fm' = fm_title fm" and "fm_instructions fm' = fm_instructions fm"
    and "length (fm_fields fm') = length (fm_fields fm)"
  using assms by (auto simp: reply_Inr_iff)

lemma reply_field:
  assumes "snd (reply w fm) = Inr fm'" and "valid_ref fm (fld w)"
  shows "\<exists>v. answer w = Inr v \<and> field_at fm' (fld w) = answered w v (field_at fm (fld w))"
  using assms by (auto simp: reply_Inr_iff)

section \<open>Lemmas: constructors\<close>

lemma find_val_pos_append:
  "find_val_pos v (os @ [option]) i p =
     (if py_eq_str v (o_value option) then i + int (length os) else find_val_pos v os i p)"
  by (induction os arbitrary: i p) (auto simp: algebra_simps)

lemma find_val_pos_bounds:
  "i \<le> find_val_pos v os i p \<and> find_val_pos v os i p < i + int (length os) \<or>
   find_val_pos v os i p = p"
proof (induction os arbitrary: i p)
  case Nil
  show ?case by simp
next
  case (Cons option os)
  from Cons.IH [of "i + 1" "if py_eq_str v (o_value option) then i else p"]
  show ?case by (auto split: if_splits)
qed

lemma ListSingleWin_init_inv: "input_inv (ListSingleWin (ListSingleWin_init r f))"
  using find_val_pos_bounds [of 0 "getValue f" "getOptions f" 0]
  by (auto simp: ListSingleWin_init_def cursor_ok_def)

lemma ListMultiWin_init_inv:
  "ListMultiWin_init r f = Inr m \<Longrightarrow> input_inv (ListMultiWin m)"
  by (auto simp: ListMultiWin_init_def Let_def split: sum.splits)

section \<open>Lemmas: the lock\<close>

lemma disciplined_refresh [simp]: "disciplined (refresh w)"
  by (simp add: disciplined_def lock_balanced_def refresh_lock_run refresh_draws_locked)

lemma disciplined_set_color [simp]: "disciplined (set_color c w)"
  by (simp add: disciplined_def lock_balanced_def set_color_trace refresh_lock_run
      refresh_draws_locked)

lemma disciplined_refreshes [simp]:
  "disciplined (BooleanWin_refresh b)" "disciplined (ListMultiWin_refresh m)"
  "disciplined (ListSingleWin_refresh s)" "disciplined (TextSingleWin_refresh t)"
  using disciplined_refresh [of "BooleanWin b"] disciplined_refresh [of "ListMultiWin m"]
    disciplined_refresh [of "ListSingleWin s"] disciplined_refresh [of "TextSingleWin t"]
  by simp_all

lemmas disciplined_intros = disciplined_if disciplined_bind disciplined_simps
  disciplined_refreshes

lemma disciplined_do_command [simp]: "disciplined (do_command ed k w)"
  by (cases w) (simp_all add: do_command_defs Let_def disciplined_bind)

lemma disciplined_reply [simp]: "disciplined (reply w fm)"
  by (simp add: disciplined_def)

lemma quiet_calls [simp]: "quiet (calls r cs)"
  by (simp add: quiet_def calls_def list_all_iff)

lemma quiet_resize_input [simp]: "quiet (resize_input h n y x w)"
  by (simp add: resize_input_def quiet_def)

lemma io_map_const_error:
  "(\<And>x. x \<in> set xs \<Longrightarrow> f x = Inl e) \<Longrightarrow> io_map f xs = (if xs = [] then Inr [] else Inl e)"
  by (cases xs) simp_all

lemma ListMultiWin_init_eq:
  "ListMultiWin_init r f =
     (if f_options f \<noteq> [] \<and> (f_value f = PNone \<or> (\<exists>b. f_value f = PBool b)) then Inl TypeError
      else Inr \<lparr>fi_field = r, color = unfocused, width = 0,
             lm_options = map (\<lambda>option. (option, py_in (o_value option) (f_value f) = Inr True))
                            (f_options f),
             lm_val_pos = 0\<rparr>)"
proof (cases "f_value f")
  case (PStr s)
  then show ?thesis
    by (simp add: ListMultiWin_init_def form_defs
        io_map_total [where g = "\<lambda>option. (option, sublist (o_value option) s)"])
next
  case (PList xs)
  then show ?thesis
    by (simp add: ListMultiWin_init_def form_defs
        io_map_total [where g = "\<lambda>option. (option, o_value option \<in> set xs)"])
qed (simp_all add: ListMultiWin_init_def form_defs io_map_const_error [where e = TypeError])

lemma find_val_pos_spec:
  "(\<forall>option \<in> set os. \<not> py_eq_str v (o_value option)) \<and> find_val_pos v os i p = p \<or>
   (\<exists>k < length os. find_val_pos v os i p = i + int k \<and> py_eq_str v (o_value (os ! k)) \<and>
      (\<forall>j. k < j \<and> j < length os \<longrightarrow> \<not> py_eq_str v (o_value (os ! j))))"
proof (induction os rule: rev_induct)
  case Nil
  show ?case by simp
next
  case (snoc option os)
  show ?case
  proof (cases "py_eq_str v (o_value option)")
    case True
    then have "find_val_pos v (os @ [option]) i p = i + int (length os) \<and>
        py_eq_str v (o_value ((os @ [option]) ! length os))"
      by (simp add: find_val_pos_append)
    then show ?thesis by (intro disjI2 exI [of _ "length os"]) auto
  next
    case False
    from snoc.IH show ?thesis
    proof
      assume "(\<forall>option \<in> set os. \<not> py_eq_str v (o_value option)) \<and> find_val_pos v os i p = p"
      with False show ?thesis by (simp add: find_val_pos_append)
    next
      assume "\<exists>k < length os. find_val_pos v os i p = i + int k \<and>
          py_eq_str v (o_value (os ! k)) \<and>
          (\<forall>j. k < j \<and> j < length os \<longrightarrow> \<not> py_eq_str v (o_value (os ! j)))"
      then obtain k where k: "k < length os" "find_val_pos v os i p = i + int k"
        "py_eq_str v (o_value (os ! k))"
        "\<And>j. k < j \<Longrightarrow> j < length os \<Longrightarrow> \<not> py_eq_str v (o_value (os ! j))"
        by blast
      have "\<not> py_eq_str v (o_value ((os @ [option]) ! j))"
        if "k < j" "j < length (os @ [option])" for j
        using that k(4) [of j] False by (cases "j < length os") (auto simp: nth_append)
      with k(1-3) False show ?thesis
        by (intro disjI2 exI [of _ k]) (simp add: find_val_pos_append nth_append)
    qed
  qed
qed

section \<open>Properties of the inputs\<close>

text \<open>
  C37.  \<^verbatim>\<open>ListSingleWin.__init__\<close> puts the cursor on the last option whose value
  equals the value of the field, and on the first option when there is none; the
  cursor is clamped into the options.
\<close>

theorem ListSingleWin_init_cursor:
  "input_inv (ListSingleWin (ListSingleWin_init r f)) \<and>
   ((\<forall>option \<in> set (f_options f). \<not> py_eq_str (f_value f) (o_value option)) \<longrightarrow>
      ls_val_pos (ListSingleWin_init r f) = 0) \<and>
   ((\<exists>option \<in> set (f_options f). py_eq_str (f_value f) (o_value option)) \<longrightarrow>
      (\<exists>k < length (f_options f). ls_val_pos (ListSingleWin_init r f) = int k \<and>
         py_eq_str (f_value f) (o_value (f_options f ! k)) \<and>
         (\<forall>j. k < j \<and> j < length (f_options f) \<longrightarrow>
            \<not> py_eq_str (f_value f) (o_value (f_options f ! j)))))"
  using find_val_pos_spec [of "f_options f" "f_value f" 0 0]
    ListSingleWin_init_inv [of r f]
  by (auto simp: ListSingleWin_init_def form_defs)

theorem ListSingleWin_init_cursor_witness:
  "ls_val_pos (ListSingleWin_init 0
     \<lparr>f_type = ''list-single'', f_label = [], f_instructions = [], f_value = PStr ''b'',
      f_options = [\<lparr>o_value = ''b'', o_label = ''first''\<rparr>, \<lparr>o_value = ''a'', o_label = ''A''\<rparr>,
                   \<lparr>o_value = ''b'', o_label = ''second''\<rparr>]\<rparr>) = 2"
  using ListSingleWin_init_cursor [of 0
     "\<lparr>f_type = ''list-single'', f_label = [], f_instructions = [], f_value = PStr ''b'',
      f_options = [\<lparr>o_value = ''b'', o_label = ''first''\<rparr>, \<lparr>o_value = ''a'', o_label = ''A''\<rparr>,
                   \<lparr>o_value = ''b'', o_label = ''second''\<rparr>]\<rparr>"]
  by (simp add: ListSingleWin_init_def form_defs)

text \<open>
  C34.  A key that an input handles without raising keeps the invariant of the
  input, keeps it drawable, and changes neither the field it refers to, nor its
  colour, nor its width, nor what kind of input it is.
\<close>

theorem do_command_keeps:
  assumes "snd (do_command ed k w) = Inr w'" and "input_inv w"
  shows "input_inv w' \<and> (renderable w \<longrightarrow> renderable w') \<and> fld w' = fld w \<and>
    color_of w' = color_of w \<and> width_of w' = width_of w \<and> is_dummy w' = is_dummy w"
  using assms do_command_inv [OF assms] do_command_attrs [OF assms(1)]
  by (auto dest: do_command_renderable)

theorem do_command_keeps_witness:
  "snd (do_command (\<lambda>k s. s) KEY_RIGHT (BooleanWin (BooleanWin_init 0
      \<lparr>f_type = ''boolean'', f_label = [], f_instructions = [], f_value = PBool False,
       f_options = []\<rparr>))) =
     Inr (BooleanWin \<lparr>fi_field = 0, color = unfocused, width = 0, bw_last_key = KEY_RIGHT,
                        bw_value = True\<rparr>)"
proof -
  let ?w = "BooleanWin (BooleanWin_init 0
      \<lparr>f_type = ''boolean'', f_label = [], f_instructions = [], f_value = PBool False,
       f_options = []\<rparr>)"
  let ?w' = "BooleanWin \<lparr>fi_field = 0, color = unfocused, width = 0, bw_last_key = KEY_RIGHT,
                        bw_value = True\<rparr>"
  have r: "snd (do_command (\<lambda>k s. s) KEY_RIGHT ?w) = Inr ?w'"
    by (simp add: BooleanWin_do_command_def BooleanWin_refresh_def form_defs snd_bind)
  from do_command_keeps [OF r] r show ?thesis by simp
qed

text \<open>
  C35.  The arrow keys on a list input whose option under the cursor exists: the
  right arrow moves the cursor one option on and stops at the last option, the left
  arrow moves it one option back and stops at the first; the options and, for a
  multiple choice, the selection are unchanged.
\<close>

theorem list_cursor_moves:
  assumes "renderable w" and "input_inv w"
  shows "(w = ListSingleWin s \<longrightarrow>
      snd (do_command ed KEY_RIGHT w) =
        Inr (ListSingleWin (s\<lparr>ls_val_pos := min (ls_val_pos s + 1) (int (length (ls_options s)) - 1)\<rparr>)) \<and>
      snd (do_command ed KEY_LEFT w) =
        Inr (ListSingleWin (s\<lparr>ls_val_pos := max (ls_val_pos s - 1) 0\<rparr>))) \<and>
    (w = ListMultiWin m \<longrightarrow>
      snd (do_command ed KEY_RIGHT w) =
        Inr (ListMultiWin (m\<lparr>lm_val_pos := min (lm_val_pos m + 1) (int (length (lm_options m)) - 1)\<rparr>)) \<and>
      snd (do_command ed KEY_LEFT w) =
        Inr (ListMultiWin (m\<lparr>lm_val_pos := max (lm_val_pos m - 1) 0\<rparr>)))"
proof -
  have rs: "snd (ListSingleWin_refresh s') =
      (if index_ok (ls_options s') (ls_val_pos s') then Inr () else Inl IndexError)" for s'
    using refresh_result [of "ListSingleWin s'"] by simp
  have rm: "snd (ListMultiWin_refresh m') =
      (if index_ok (lm_options m') (lm_val_pos m') then Inr () else Inl IndexError)" for m'
    using refresh_result [of "ListMultiWin m'"] by simp
  from assms show ?thesis
    by (auto simp: do_command_defs Let_def snd_bind rs rm index_ok_def cursor_ok_def
        min_def max_def)
qed

theorem list_cursor_moves_witness:
  "snd (do_command (\<lambda>k s. s) KEY_RIGHT
     (ListSingleWin \<lparr>fi_field = 0, color = unfocused, width = 0,
        ls_options = [\<lparr>o_value = ''a'', o_label = ''A''\<rparr>, \<lparr>o_value = ''b'', o_label = ''B''\<rparr>],
        ls_val_pos = 1\<rparr>)) =
   Inr (ListSingleWin \<lparr>fi_field = 0, color = unfocused, width = 0,
        ls_options = [\<lparr>o_value = ''a'', o_label = ''A''\<rparr>, \<lparr>o_value = ''b'', o_label = ''B''\<rparr>],
        ls_val_pos = 1\<rparr>)"
  using list_cursor_moves [of "ListSingleWin \<lparr>fi_field = 0, color = unfocused, width = 0,
        ls_options = [\<lparr>o_value = ''a'', o_label = ''A''\<rparr>, \<lparr>o_value = ''b'', o_label = ''B''\<rparr>],
        ls_val_pos = 1\<rparr>" "\<lparr>fi_field = 0, color = unfocused, width = 0,
        ls_options = [\<lparr>o_value = ''a'', o_label = ''A''\<rparr>, \<lparr>o_value = ''b'', o_label = ''B''\<rparr>],
        ls_val_pos = 1\<rparr>" "\<lambda>k s. s"]
  by (simp add: index_ok_def cursor_ok_def)

text \<open>
  C36.  The space key on a multiple-choice list whose option under the cursor
  exists negates the selection of that option and of no other; pressed twice it
  restores the input.
\<close>

theorem space_toggles:
  assumes "renderable (ListMultiWin m)" and "input_inv (ListMultiWin m)"
  shows "snd (do_command ed '' '' (ListMultiWin m)) =
      Inr (ListMultiWin (m\<lparr>lm_options := (lm_options m)[nat (lm_val_pos m) :=
             (fst (lm_options m ! nat (lm_val_pos m)),
              \<not> snd (lm_options m ! nat (lm_val_pos m)))]\<rparr>)) \<and>
    snd (bind (do_command ed '' '' (ListMultiWin m)) (do_command ed '' '')) =
      Inr (ListMultiWin m)"
proof -
  have rm: "snd (ListMultiWin_refresh m') =
      (if index_ok (lm_options m') (lm_val_pos m') then Inr () else Inl IndexError)" for m'
    using refresh_result [of "ListMultiWin m'"] by simp
  from assms have p: "0 \<le> lm_val_pos m" "lm_val_pos m < int (length (lm_options m))"
    by (simp_all add: index_ok_def cursor_ok_def)
  then show ?thesis
    by (simp add: do_command_defs Let_def snd_bind rm toggle_at_in_range index_ok_def
        list_update_same_conv)
qed

theorem space_toggles_witness:
  "snd (do_command (\<lambda>k s. s) '' ''
     (ListMultiWin \<lparr>fi_field = 0, color = unfocused, width = 0,
        lm_options = [(\<lparr>o_value = ''a'', o_label = ''A''\<rparr>, False)], lm_val_pos = 0\<rparr>)) =
   Inr (ListMultiWin \<lparr>fi_field = 0, color = unfocused, width = 0,
        lm_options = [(\<lparr>o_value = ''a'', o_label = ''A''\<rparr>, True)], lm_val_pos = 0\<rparr>)"
  using space_toggles [of "\<lparr>fi_field = 0, color = unfocused, width = 0,
        lm_options = [(\<lparr>o_value = ''a'', o_label = ''A''\<rparr>, False)], lm_val_pos = 0\<rparr>"
      "\<lambda>k s. s"]
  by (simp add: index_ok_def cursor_ok_def)

text \<open>
  C33.  \<^verbatim>\<open>reply\<close> of an input refines its specification: it raises what
  \<open>answer\<close> raises, and otherwise returns the form in which the field of the input
  has the answer as its value and an empty label, and no options if the input is a
  list; no other field and nothing else of the form is changed, and no call is made.
\<close>

theorem reply_commits:
  "reply w fm =
     (case answer w of Inl e \<Rightarrow> ([], Inl e)
      | Inr v \<Rightarrow> ([], Inr (upd_field (fld w) (answered w v) fm))) \<and>
   (\<forall>v. answer w = Inr v \<and> valid_ref fm (fld w) \<longrightarrow>
      f_value (field_at (upd_field (fld w) (answered w v) fm) (fld w)) = v \<and>
      f_label (field_at (upd_field (fld w) (answered w v) fm) (fld w)) = [] \<and>
      (\<forall>q. q \<noteq> fld w \<longrightarrow> field_at (upd_field (fld w) (answered w v) fm) q = field_at fm q))"
  by (auto simp: reply_refines answered_def raise_def ret_def split: sum.splits)

theorem reply_commits_witness:
  "reply (ListSingleWin \<lparr>fi_field = 0, color = unfocused, width = 0,
        ls_options = [\<lparr>o_value = ''a'', o_label = ''A''\<rparr>, \<lparr>o_value = ''b'', o_label = ''B''\<rparr>,
                      \<lparr>o_value = ''c'', o_label = ''C''\<rparr>],
        ls_val_pos = 2\<rparr>)
     \<lparr>fm_title = [], fm_instructions = [],
      fm_fields = [(''room'', \<lparr>f_type = ''list-single'', f_label = ''Room'', f_instructions = [],
         f_value = PNone,
         f_options = [\<lparr>o_value = ''a'', o_label = ''A''\<rparr>, \<lparr>o_value = ''b'', o_label = ''B''\<rparr>,
                      \<lparr>o_value = ''c'', o_label = ''C''\<rparr>]\<rparr>)]\<rparr> =
   ([], Inr \<lparr>fm_title = [], fm_instructions = [],
      fm_fields = [(''room'', \<lparr>f_type = ''list-single'', f_label = [], f_instructions = [],
         f_value = PStr ''c'', f_options = []\<rparr>)]\<rparr>)"
  using reply_commits [of "ListSingleWin \<lparr>fi_field = 0, color = unfocused, width = 0,
        ls_options = [\<lparr>o_value = ''a'', o_label = ''A''\<rparr>, \<lparr>o_value = ''b'', o_label = ''B''\<rparr>,
                      \<lparr>o_value = ''c'', o_label = ''C''\<rparr>],
        ls_val_pos = 2\<rparr>"
     "\<lparr>fm_title = [], fm_instructions = [],
      fm_fields = [(''room'', \<lparr>f_type = ''list-single'', f_label = ''Room'', f_instructions = [],
         f_value = PNone,
         f_options = [\<lparr>o_value = ''a'', o_label = ''A''\<rparr>, \<lparr>o_value = ''b'', o_label = ''B''\<rparr>,
                      \<lparr>o_value = ''c'', o_label = ''C''\<rparr>]\<rparr>)]\<rparr>"]
  by (simp add: answered_def upd_field_def py_get_def py_index_def)

text \<open>
  C38.  The answer of an input that no key has touched: a text input answers the
  value of its field if that is a string and the empty string otherwise; a boolean
  input answers the truth value of the value; a single-choice list answers the
  value of its field when that is the value of one of the options; and a
  multiple-choice list whose field holds a list of strings answers the values of
  the options that are in that list, in the order of the options.
\<close>

theorem unedited_answer:
  "answer (TextSingleWin (TextSingleWin_init r f)) = Inr (PStr (str_or_empty (f_value f))) \<and>
   answer (BooleanWin (BooleanWin_init r f)) = Inr (PBool (py_bool (f_value f))) \<and>
   (\<forall>v. f_value f = PStr v \<and> v \<in> o_value ` set (f_options f) \<longrightarrow>
      answer (ListSingleWin (ListSingleWin_init r f)) = Inr (PStr v)) \<and>
   (\<forall>xs. f_value f = PList xs \<longrightarrow>
      map_sum id (\<lambda>m. answer (ListMultiWin m)) (ListMultiWin_init r f) =
        Inr (Inr (PList (filter (\<lambda>v. v \<in> set xs) (map o_value (f_options f))))))"
proof -
  have "answer (ListSingleWin (ListSingleWin_init r f)) = Inr (PStr v)"
    if "f_value f = PStr v" "v \<in> o_value ` set (f_options f)" for v
  proof -
    from that have "\<exists>option \<in> set (f_options f). py_eq_str (f_value f) (o_value option)"
      by auto
    with find_val_pos_spec [of "f_options f" "f_value f" 0 0] that(1)
    obtain k where "k < length (f_options f)" "find_val_pos (PStr v) (f_options f) 0 0 = int k"
      "o_value (f_options f ! k) = v"
      by auto
    then show ?thesis by (simp add: ListSingleWin_init_def form_defs that(1))
  qed
  moreover have "map_sum id (\<lambda>m. answer (ListMultiWin m)) (ListMultiWin_init r f) =
      Inr (Inr (PList (filter (\<lambda>v. v \<in> set xs) (map o_value (f_options f)))))"
    if "f_value f = PList xs" for xs
    using that by (simp add: ListMultiWin_init_eq filter_map comp_def)
  moreover have "answer (TextSingleWin (TextSingleWin_init r f)) =
      Inr (PStr (str_or_empty (f_value f)))"
    "answer (BooleanWin (BooleanWin_init r f)) = Inr (PBool (py_bool (f_value f)))"
    by (simp_all add: TextSingleWin_init_def Let_def form_defs)
  ultimately show ?thesis by blast
qed

theorem unedited_answer_witness:
  "answer (ListSingleWin (ListSingleWin_init 0
     \<lparr>f_type = ''list-single'', f_label = [], f_instructions = [], f_value = PStr ''b'',
      f_options = [\<lparr>o_value = ''a'', o_label = ''A''\<rparr>, \<lparr>o_value = ''b'', o_label = ''B''\<rparr>]\<rparr>)) =
     Inr (PStr ''b'') \<and>
   map_sum id (\<lambda>m. answer (ListMultiWin m)) (ListMultiWin_init 0
     \<lparr>f_type = ''list-multi'', f_label = [], f_instructions = [], f_value = PList [''c'', ''a''],
      f_options = [\<lparr>o_value = ''a'', o_label = ''A''\<rparr>, \<lparr>o_value = ''b'', o_label = ''B''\<rparr>,
                   \<lparr>o_value = ''c'', o_label = ''C''\<rparr>]\<rparr>) =
     Inr (Inr (PList [''a'', ''c'']))"
  using unedited_answer [of 0
     "\<lparr>f_type = ''list-single'', f_label = [], f_instructions = [], f_value = PStr ''b'',
      f_options = [\<lparr>o_value = ''a'', o_label = ''A''\<rparr>, \<lparr>o_value = ''b'', o_label = ''B''\<rparr>]\<rparr>"]
    unedited_answer [of 0
     "\<lparr>f_type = ''list-multi'', f_label = [], f_instructions = [], f_value = PList [''c'', ''a''],
      f_options = [\<lparr>o_value = ''a'', o_label = ''A''\<rparr>, \<lparr>o_value = ''b'', o_label = ''B''\<rparr>,
                   \<lparr>o_value = ''c'', o_label = ''C''\<rparr>]\<rparr>"]
  by simp

section \<open>Properties of the masked input\<close>

lemma rewrite_text_trace:
  "fst (TextPrivateWin_rewrite_text line_pos x t) =
     Acquire # map (InputCall (fi_field t))
       ([Erase] @
        (if color t \<noteq> 0 then [Attron (color t)] else []) @
        [AddstrHere (replicate (shown_chars line_pos t) CHR ''*'')] @
        (if color t \<noteq> 0
         then [Getyx, AddnstrHere (replicate (nat (width t - x)) CHR '' '') (width t - x) (color t)]
         else []) @
        [Addstr 0 (ts_pos t) []] @
        (if color t \<noteq> 0 then [Attroff (color t)] else []) @
        [Refresh]) @ [Release]"
  by (simp add: TextPrivateWin_rewrite_text_def shown_chars_def py_repeat_replicate)

lemma shown_chars_text [simp]:
  "length s = length (ts_text t) \<Longrightarrow> shown_chars line_pos (t\<lparr>ts_text := s\<rparr>) = shown_chars line_pos t"
  by (simp add: shown_chars_def py_slice_length)

lemma shown_chars_window:
  "0 \<le> line_pos \<Longrightarrow> 1 \<le> width t \<Longrightarrow>
   shown_chars line_pos t = min (nat (width t - 1)) (length (ts_text t) - nat line_pos)"
  using py_slice_window [of line_pos "width t - 1" "ts_text t"]
  by (simp add: shown_chars_def algebra_simps)

lemma disciplined_rewrite_text [simp]: "disciplined (TextPrivateWin_rewrite_text line_pos x t)"
  unfolding TextPrivateWin_rewrite_text_def by (intro disciplined_with_lock_quiet) simp

text \<open>
  C30.  The masked input does not show its text: what \<^verbatim>\<open>rewrite_text\<close> writes on
  the window consists of asterisks and blanks only, and two inputs that differ only
  in the characters of their texts, not in the length, make exactly the same calls.
  It raises nothing.
\<close>

theorem rewrite_text_hides_text:
  "(\<forall>e \<in> set (fst (TextPrivateWin_rewrite_text line_pos x t)).
      set (written e) \<subseteq> {CHR ''*'', CHR '' ''}) \<and>
   (length s = length (ts_text t) \<longrightarrow>
      TextPrivateWin_rewrite_text line_pos x (t\<lparr>ts_text := s\<rparr>) =
      TextPrivateWin_rewrite_text line_pos x t) \<and>
   snd (TextPrivateWin_rewrite_text line_pos x t) = Inr ()"
proof -
  have "TextPrivateWin_rewrite_text line_pos x (t\<lparr>ts_text := s\<rparr>) =
      TextPrivateWin_rewrite_text line_pos x t" if "length s = length (ts_text t)"
    using that by (simp add: prod_eq_iff rewrite_text_trace) (simp add: TextPrivateWin_rewrite_text_def)
  moreover have "set (written e) \<subseteq> {CHR ''*'', CHR '' ''}"
    if "e \<in> set (fst (TextPrivateWin_rewrite_text line_pos x t))" for e
    using that by (auto simp: rewrite_text_trace split: if_splits)
  ultimately show ?thesis by (simp add: TextPrivateWin_rewrite_text_def)
qed

theorem rewrite_text_hides_text_witness:
  "TextPrivateWin_rewrite_text 0 4 (secret_input\<lparr>ts_text := ''public''\<rparr>) =
     TextPrivateWin_rewrite_text 0 4 secret_input \<and>
   fst (TextPrivateWin_rewrite_text 0 4 secret_input) =
     Acquire # map (InputCall 0)
       [Erase, Attron focused, AddstrHere ''****'', Getyx, AddnstrHere '' '' 1 focused,
        Addstr 0 4 [], Attroff focused, Refresh] @ [Release]"
  using rewrite_text_hides_text [of 0 4 secret_input "''public''"]
  by (simp add: secret_input_def rewrite_text_trace shown_chars_window)

text \<open>
  C31.  \<^verbatim>\<open>rewrite_text\<close> on a window at least one column wide, with the first
  character shown inside the text: it draws one asterisk for each character from
  \<open>line_pos\<close> on, but at most \<open>width - 1\<close>; when \<^verbatim>\<open>getyx\<close> reports the column after the
  last asterisk, the blanks that follow fill the line exactly to its width and there
  is at least one; and every call is made under the lock, which is free afterwards.
\<close>

theorem rewrite_text_fills_line:
  assumes "0 \<le> line_pos" and "1 \<le> width t" and "color t \<noteq> 0"
    and "x = int (shown_chars line_pos t)"
  shows "shown_chars line_pos t = min (nat (width t - 1)) (length (ts_text t) - nat line_pos) \<and>
    fst (TextPrivateWin_rewrite_text line_pos x t) =
      Acquire # map (InputCall (fi_field t))
        [Erase, Attron (color t),
         AddstrHere (replicate (shown_chars line_pos t) CHR ''*''), Getyx,
         AddnstrHere (replicate (nat (width t) - shown_chars line_pos t) CHR '' '')
           (width t - int (shown_chars line_pos t)) (color t),
         Addstr 0 (ts_pos t) [], Attroff (color t), Refresh] @ [Release] \<and>
    shown_chars line_pos t < nat (width t) \<and>
    disciplined (TextPrivateWin_rewrite_text line_pos x t)"
proof -
  from assms(1,2) have n: "shown_chars line_pos t =
      min (nat (width t - 1)) (length (ts_text t) - nat line_pos)"
    by (rule shown_chars_window)
  with assms(2) have "shown_chars line_pos t < nat (width t)" by auto
  with assms n show ?thesis by (simp add: rewrite_text_trace nat_diff_distrib')
qed

theorem rewrite_text_fills_line_witness:
  "shown_chars 3 secret_input = 3 \<and>
   fst (TextPrivateWin_rewrite_text 3 3 secret_input) =
     Acquire # map (InputCall 0)
       [Erase, Attron focused, AddstrHere ''***'', Getyx, AddnstrHere ''  '' 2 focused,
        Addstr 0 4 [], Attroff focused, Refresh] @ [Release]"
  using rewrite_text_fills_line [of 3 secret_input 3]
  by (simp add: secret_input_def shown_chars_window numeral_2_eq_2)


end
