(* ===== verification/FormWin.thy ===== *)
theory FormWin
  imports Widgets
begin

text \<open>
  The class \<^verbatim>\<open>FormWin\<close> of \<^verbatim>\<open>src/src/data_forms.py\<close>: the list of inputs built from
  the fields of the form, the index of the input that has the focus, and the
  operations that move the focus (\<^verbatim>\<open>go_to_next_input\<close>, \<^verbatim>\<open>go_to_previous_input\<close>),
  pass a key to the focused input (\<^verbatim>\<open>on_input\<close>) and commit every input to its
  field (\<^verbatim>\<open>reply\<close>).

  The form object is shared by the tab, the form window and (field by field) the
  inputs; the model keeps it in \<open>fw_form\<close>, and the inputs refer into it.
  The two \<^verbatim>\<open>while\<close> loops that skip over dummy inputs are the functions
  \<open>next_jump\<close> and \<open>prev_jump\<close>, each with its termination proof; every list access
  of the source is \<open>py_get\<close> or \<open>py_index\<close>, so that an \<^verbatim>\<open>IndexError\<close> of the source
  is a result of the model.

  \<open>next_focus\<close> and \<open>prev_focus\<close> are the specification of the navigation over the
  list of dummy flags: the nearest input after (before) the focused one that is not
  a dummy.  The lemmas relate the loops to them.
\<close>

section \<open>State\<close>

datatype input_class =
    CBooleanWin
  | CDummyInput
  | CTextSingleWin
  | CListMultiWin
  | CListSingleWin
  | CTextPrivateWin

record entry =
  e_label :: pyval
  e_instructions :: string
  e_input :: input

record form_win =
  fw_form :: form
  current_input :: int
  inputs :: "entry list"
  fw_height :: int
  fw_width :: int

section \<open>Construction\<close>

definition input_classes :: "string \<rightharpoonup> input_class" where
  "input_classes =
     [''boolean'' \<mapsto> CBooleanWin,
      ''fixed'' \<mapsto> CDummyInput,
      ''jid-single'' \<mapsto> CTextSingleWin,
      ''list-multi'' \<mapsto> CListMultiWin,
      ''list-single'' \<mapsto> CListSingleWin,
      ''text-private'' \<mapsto> CTextPrivateWin,
      ''text-single'' \<mapsto> CTextSingleWin]"

text \<open>\<^verbatim>\<open>input_class(field)\<close>: the constructor of the class that was looked up.\<close>

fun new_input :: "input_class \<Rightarrow> field_ref \<Rightarrow> field \<Rightarrow> error + input" where
  "new_input CBooleanWin r f = Inr (BooleanWin (BooleanWin_init r f))"
| "new_input CDummyInput r f = Inr (DummyInput (DummyInput_init r f))"
| "new_input CTextSingleWin r f = Inr (TextSingleWin (TextSingleWin_init r f))"
| "new_input CListMultiWin r f = map_sum id ListMultiWin (ListMultiWin_init r f)"
| "new_input CListSingleWin r f = Inr (ListSingleWin (ListSingleWin_init r f))"
| "new_input CTextPrivateWin r f = Inr (TextPrivateWin (TextPrivateWin_init r f))"

text \<open>
  One round of the loop of \<^verbatim>\<open>FormWin.__init__\<close>, for the field at position \<open>r\<close>:
  the state is the form (a field of unknown type gets its type as value) and the
  inputs built so far.
\<close>

definition init_field :: "field_ref \<Rightarrow> form \<times> entry list \<Rightarrow> (form \<times> entry list) io" where
  "init_field r s =
     (let fm = fst s; inps = snd s in
      if f_type (field_at fm r) = ''hidden'' then ret (fm, inps)
      else
        let fm' = (case input_classes (f_type (field_at fm r)) of
                     Some c \<Rightarrow> fm
                   | None \<Rightarrow> upd_field r (setValue (PStr (f_type (field_at fm r)))) fm);
            input_class = (case input_classes (f_type (field_at fm r)) of
                     Some c \<Rightarrow> c
                   | None \<Rightarrow> CTextSingleWin);
            field = field_at fm' r;
            instructions = f_instructions field;
            label = (if f_type field = ''fixed'' then getValue field else PStr (f_label field))
        in bind (lift (new_input input_class r field))
             (\<lambda>inp. ret (fm', inps @ [\<lparr>e_label = label, e_instructions = instructions,
                                        e_input = inp\<rparr>])))"

definition FormWin_init :: "form \<Rightarrow> int \<Rightarrow> int \<Rightarrow> int \<Rightarrow> int \<Rightarrow> form_win io" where
  "FormWin_init fm h wd y x =
     bind (emit (FormCall (Newwin h wd y x)))
       (\<lambda>_. bind (io_fold init_field [0 ..< length (getFields fm)] (fm, []))
       (\<lambda>s. ret \<lparr>fw_form = fst s, current_input = 0, inputs = snd s,
                  fw_height = 0, fw_width = 0\<rparr>))"

definition FormWin_resize :: "int \<Rightarrow> int \<Rightarrow> int \<Rightarrow> int \<Rightarrow> form_win \<Rightarrow> form_win io" where
  "FormWin_resize h wd y x fw =
     bind (emit (FormCall (Resize h wd)))
       (\<lambda>_. ret (fw\<lparr>fw_height := h, fw_width := wd\<rparr>))"

section \<open>Reply\<close>

definition reply_entry :: "entry \<Rightarrow> form \<Rightarrow> form io" where
  "reply_entry inp fm = (if is_dummy (e_input inp) then ret fm else reply (e_input inp) fm)"

definition FormWin_reply :: "form_win \<Rightarrow> form_win io" where
  "FormWin_reply fw =
     bind (io_fold reply_entry (inputs fw) (fw_form fw))
       (\<lambda>fm. ret (fw\<lparr>fw_form := fm\<lparr>fm_title := [], fm_instructions := []\<rparr>\<rparr>))"

section \<open>Navigation and keys\<close>

text \<open>
  \<^verbatim>\<open>self.inputs[i]['input'].m(...)\<close> for a method \<open>m\<close> that changes the input: the
  input is an object in the list, so the list holds the changed input afterwards.
\<close>

definition call_input :: "int \<Rightarrow> (input \<Rightarrow> input io) \<Rightarrow> form_win \<Rightarrow> form_win io" where
  "call_input i m fw =
     bind (lift (py_index (inputs fw) i))
       (\<lambda>k. bind (m (e_input (inputs fw ! k)))
       (\<lambda>w. ret (fw\<lparr>inputs := (inputs fw)[k := (inputs fw ! k)\<lparr>e_input := w\<rparr>]\<rparr>)))"

function next_jump :: "entry list \<Rightarrow> int \<Rightarrow> int \<Rightarrow> error + int" where
  "next_jump inps c jump =
     (if c + jump \<noteq> int (length inps) - 1 then
        (case py_get inps (c + jump) of
           Inl e \<Rightarrow> Inl e
         | Inr inp \<Rightarrow> if is_dummy (e_input inp) then next_jump inps c (jump + 1) else Inr jump)
      else Inr jump)"
  by pat_completeness auto
termination
  by (relation "measure (\<lambda>(inps, c, jump). nat (int (length inps) - 1 - (c + jump)))")
    (auto dest: py_get_Inr_upper)

function prev_jump :: "entry list \<Rightarrow> int \<Rightarrow> int \<Rightarrow> error + int" where
  "prev_jump inps c jump =
     (if c - jump > 0 then
        (case py_get inps (c + jump) of
           Inl e \<Rightarrow> Inl e
         | Inr inp \<Rightarrow> if is_dummy (e_input inp) then prev_jump inps c (jump + 1) else Inr jump)
      else Inr jump)"
  by pat_completeness auto
termination
  by (relation "measure (\<lambda>(inps, c, jump). nat (c - jump))") auto

declare next_jump.simps [simp del] prev_jump.simps [simp del]

definition go_to_next_input :: "form_win \<Rightarrow> form_win io" where
  "go_to_next_input fw =
     (if inputs fw = [] then ret fw
      else if current_input fw = int (length (inputs fw)) - 1 then ret fw
      else
        bind (call_input (current_input fw) (set_color unfocused) fw)
          (\<lambda>fw1. let fw2 = fw1\<lparr>current_input := current_input fw1 + 1\<rparr> in
           bind (lift (next_jump (inputs fw2) (current_input fw2) 0))
          (\<lambda>jump. bind (lift (py_get (inputs fw2) (current_input fw2 + jump)))
          (\<lambda>inp. if is_dummy (e_input inp) then ret fw2
                  else let fw3 = fw2\<lparr>current_input := current_input fw2 + jump\<rparr>
                       in call_input (current_input fw3) (set_color focused) fw3))))"

definition go_to_previous_input :: "form_win \<Rightarrow> form_win io" where
  "go_to_previous_input fw =
     (if inputs fw = [] then ret fw
      else if current_input fw = 0 then ret fw
      else
        bind (call_input (current_input fw) (set_color unfocused) fw)
          (\<lambda>fw1. let fw2 = fw1\<lparr>current_input := current_input fw1 - 1\<rparr> in
           bind (lift (prev_jump (inputs fw2) (current_input fw2) 0))
          (\<lambda>jump. bind (lift (py_get (inputs fw2) (current_input fw2 + jump)))
          (\<lambda>inp. if is_dummy (e_input inp) then ret fw2
                  else let fw3 = fw2\<lparr>current_input := current_input fw2 - jump\<rparr>
                       in call_input (current_input fw3) (set_color focused) fw3))))"

definition FormWin_on_input :: "line_editor \<Rightarrow> key \<Rightarrow> form_win \<Rightarrow> form_win io" where
  "FormWin_on_input ed k fw =
     (if inputs fw = [] then ret fw
      else call_input (current_input fw) (do_command ed k) fw)"

section \<open>Refresh\<close>

text \<open>
  \<^verbatim>\<open>self._win.addstr(y, x, v)\<close>: curses writes a string, and raises \<^verbatim>\<open>TypeError\<close>
  for any other value (the label of a fixed field is the value of the field).
\<close>

definition addstr_form :: "int \<Rightarrow> int \<Rightarrow> pyval \<Rightarrow> unit io" where
  "addstr_form y x v =
     (case v of
        PStr s \<Rightarrow> emit (FormCall (Addstr y x s))
      | PNone \<Rightarrow> raise TypeError
      | PBool b \<Rightarrow> raise TypeError
      | PList xs \<Rightarrow> raise TypeError)"

text \<open>
  One round of the first loop of \<^verbatim>\<open>FormWin.refresh\<close>, for the field at position
  \<open>r\<close>; the state is the form window, the row \<open>y\<close> and the index \<open>i\<close> of the next
  input.
\<close>

definition refresh_field ::
    "field_ref \<Rightarrow> form_win \<times> int \<times> int \<Rightarrow> (form_win \<times> int \<times> int) io" where
  "refresh_field r s =
     (let fw = fst s; y = fst (snd s); i = snd (snd s); field = field_at (fw_form fw) r in
      if f_type field = ''hidden'' then ret s
      else
        bind (lift (py_get (inputs fw) i))
          (\<lambda>inp. bind (addstr_form y 0 (e_label inp))
          (\<lambda>_. bind (call_input i
                       (resize_input 1 (fw_width fw div 3) (y + 1) (2 * fw_width fw div 3)) fw)
          (\<lambda>fw'. bind (if f_instructions field \<noteq> []
                          then emit (FormCall (Addstr (y + 1) 0 (f_instructions field)))
                          else ret ())
          (\<lambda>_. ret (fw', (if f_instructions field \<noteq> [] then y + 1 else y) + 1, i + 1))))))"

definition FormWin_refresh :: "form_win \<Rightarrow> form_win io" where
  "FormWin_refresh fw =
     bind (with_lock
             (bind (emit (FormCall Erase))
               (\<lambda>_. bind (io_fold refresh_field [0 ..< length (getFields (fw_form fw))] (fw, 0, 0))
               (\<lambda>s. bind (emit (FormCall Refresh)) (\<lambda>_. ret (fst s))))))
       (\<lambda>fw1. bind (io_fold (\<lambda>inp u. refresh (e_input inp)) (inputs fw1) ())
       (\<lambda>_. bind (call_input (current_input fw1) (set_color focused) fw1)
       (\<lambda>fw2. call_input (current_input fw2) (\<lambda>w. bind (refresh w) (\<lambda>_. ret w)) fw2)))"

section \<open>Specification of the navigation\<close>

text \<open>
  \<open>dummies\<close> abstracts the inputs to their dummy flags, the only thing the scans
  read.  \<open>skip_fwd ds c\<close> is the number of consecutive dummies from position \<open>c\<close>
  on.  \<open>next_focus\<close> is the position the focus should move to from \<open>c\<close>: the
  first input after \<open>c\<close> that is not a dummy, or \<open>c + 1\<close> when there is none;
  \<open>prev_focus\<close> is its mirror image.  \<open>advance\<close> is the state
  \<^verbatim>\<open>go_to_next_input\<close> should leave, and \<open>retreat\<close> the result
  \<^verbatim>\<open>go_to_previous_input\<close> does leave, both as closed expressions.
  \<open>focus_ok\<close> and \<open>widgets_ok\<close> are invariants of a form window.
\<close>

definition dummies :: "entry list \<Rightarrow> bool list" where
  "dummies inps = map (is_dummy \<circ> e_input) inps"

definition recolor :: "nat \<Rightarrow> int \<Rightarrow> entry list \<Rightarrow> entry list" where
  "recolor k c inps = inps[k := (inps ! k)\<lparr>e_input := upd_color c (e_input (inps ! k))\<rparr>]"

definition skip_fwd :: "bool list \<Rightarrow> int \<Rightarrow> int" where
  "skip_fwd ds c = int (length (takeWhile id (drop (nat c) ds)))"

definition next_focus :: "bool list \<Rightarrow> int \<Rightarrow> int" where
  "next_focus ds c =
     (if ds = [] \<or> c = int (length ds) - 1 then c
      else let k = c + 1 + skip_fwd ds (c + 1)
           in if k < int (length ds) then k else c + 1)"

definition prev_focus :: "bool list \<Rightarrow> int \<Rightarrow> int" where
  "prev_focus ds c = int (length ds) - 1 - next_focus (rev ds) (int (length ds) - 1 - c)"

definition focus_ok :: "form_win \<Rightarrow> bool" where
  "focus_ok fw \<longleftrightarrow> cursor_ok (inputs fw) (current_input fw)"

definition input_at :: "form_win \<Rightarrow> int \<Rightarrow> input" where
  "input_at fw i = e_input (inputs fw ! nat i)"

definition advance :: "form_win \<Rightarrow> form_win" where
  "advance fw =
     (let c = current_input fw; ds = dummies (inputs fw); k = next_focus ds c;
          inps = recolor (nat c) unfocused (inputs fw)
      in if inputs fw = [] \<or> c = int (length (inputs fw)) - 1 then fw
         else if ds ! nat k then fw\<lparr>inputs := inps, current_input := k\<rparr>
         else fw\<lparr>inputs := recolor (nat k) focused inps, current_input := k\<rparr>)"

definition retreat :: "form_win \<Rightarrow> error + form_win" where
  "retreat fw =
     (let c = current_input fw; d = c - 1; ds = dummies (inputs fw); m = skip_fwd ds d;
          inps = recolor (nat c) unfocused (inputs fw)
      in if inputs fw = [] \<or> c = 0 then Inr fw
         else if m \<le> d then
           (if int (length ds) \<le> d + m then Inl IndexError
            else Inr (fw\<lparr>inputs := recolor (nat (d - m)) focused inps, current_input := d - m\<rparr>))
         else Inr (fw\<lparr>inputs := inps, current_input := d\<rparr>))"

definition widgets_ok :: "form_win \<Rightarrow> bool" where
  "widgets_ok fw \<longleftrightarrow>
     list_all (\<lambda>inp. input_inv (e_input inp) \<and> renderable (e_input inp)) (inputs fw)"

text \<open>
  \<open>refs\<close> are the fields the inputs refer to; \<open>refs_ok\<close> says that they are
  distinct fields of the form, \<open>inputs_inv\<close> that every input satisfies its
  invariant.
\<close>

definition refs :: "form_win \<Rightarrow> field_ref list" where
  "refs fw = map (fld \<circ> e_input) (inputs fw)"

definition refs_ok :: "form_win \<Rightarrow> bool" where
  "refs_ok fw \<longleftrightarrow> distinct (refs fw) \<and> list_all (valid_ref (fw_form fw)) (refs fw)"

definition inputs_inv :: "form_win \<Rightarrow> bool" where
  "inputs_inv fw \<longleftrightarrow> list_all (\<lambda>inp. input_inv (e_input inp)) (inputs fw)"

section \<open>Example states\<close>

text \<open>Small concrete states, used where a theorem is applied to a concrete input.\<close>

definition text_input :: "field_ref \<Rightarrow> string \<Rightarrow> input" where
  "text_input r s =
     TextSingleWin \<lparr>fi_field = r, color = unfocused, width = 0, ts_text = s,
                    ts_pos = int (length s)\<rparr>"

definition dummy_input :: "field_ref \<Rightarrow> input" where
  "dummy_input r = DummyInput \<lparr>fi_field = r, color = unfocused, width = 0\<rparr>"

definition entry_of :: "input \<Rightarrow> entry" where
  "entry_of w = \<lparr>e_label = PStr [], e_instructions = [], e_input = w\<rparr>"

definition win_of :: "input list \<Rightarrow> int \<Rightarrow> form_win" where
  "win_of ws c =
     \<lparr>fw_form = \<lparr>fm_title = [], fm_instructions = [], fm_fields = []\<rparr>,
      current_input = c, inputs = map entry_of ws, fw_height = 0, fw_width = 0\<rparr>"

section \<open>Lemmas: flags, colours and the skip count\<close>

lemma length_dummies [simp]: "length (dummies inps) = length inps"
  by (simp add: dummies_def)

lemma nth_dummies [simp]: "k < length inps \<Longrightarrow> dummies inps ! k = is_dummy (e_input (inps ! k))"
  by (simp add: dummies_def)

lemma dummies_Nil_iff [simp]: "dummies inps = [] \<longleftrightarrow> inps = []"
  by (simp add: dummies_def)

lemma length_recolor [simp]: "length (recolor k c inps) = length inps"
  by (simp add: recolor_def)

lemma dummies_recolor [simp]: "dummies (recolor k c inps) = dummies inps"
  by (cases "k < length inps")
    (simp_all add: dummies_def recolor_def map_update list_update_same_conv list_update_beyond)

lemma skip_fwd_le: "0 \<le> c \<Longrightarrow> c + skip_fwd ds c \<le> max c (int (length ds))"
  using length_takeWhile_le [of id "drop (nat c) ds"] by (auto simp: skip_fwd_def)

lemma skip_fwd_nonneg: "0 \<le> skip_fwd ds c"
  by (simp add: skip_fwd_def)

lemma min_skip_fwd [simp]: "min (j + skip_fwd ds c) j = j"
  using skip_fwd_nonneg [of ds c] by (simp only: min_def) arith

lemma skip_fwd_step:
  "0 \<le> c \<Longrightarrow> c < int (length ds) \<Longrightarrow>
   skip_fwd ds c = (if ds ! nat c then 1 + skip_fwd ds (c + 1) else 0)"
  by (simp add: skip_fwd_def Cons_nth_drop_Suc [symmetric] nat_add_distrib)

lemma skip_fwd_beyond [simp]: "int (length ds) \<le> c \<Longrightarrow> skip_fwd ds c = 0"
  by (simp add: skip_fwd_def)

lemma skip_fwd_stop:
  "0 \<le> c \<Longrightarrow> c + skip_fwd ds c < int (length ds) \<Longrightarrow> \<not> ds ! nat (c + skip_fwd ds c)"
  using takeWhile_nth_stop [of id "drop (nat c) ds"]
  by (auto simp: skip_fwd_def nat_add_distrib)

lemma skip_fwd_all:
  assumes "0 \<le> c" and "c \<le> k" and "k < c + skip_fwd ds c"
  shows "ds ! nat k"
proof -
  let ?t = "takeWhile id (drop (nat c) ds)"
  from assms have i: "nat (k - c) < length ?t" by (simp add: skip_fwd_def)
  then have "drop (nat c) ds ! nat (k - c)" by (rule nth_takeWhile_holds [of _ id, simplified])
  moreover from i length_takeWhile_le [of id "drop (nat c) ds"]
  have "nat c \<le> length ds" by simp
  moreover from assms have "nat c + nat (k - c) = nat k" by simp
  ultimately show ?thesis by (simp add: nth_drop)
qed

text \<open>The loop of go_to_next_input counts the dummies before the last position.\<close>

lemma next_jump_eq:
  "0 \<le> c + j \<Longrightarrow> c + j \<le> int (length inps) - 1 \<Longrightarrow>
   next_jump inps c j = Inr (min (j + skip_fwd (dummies inps) (c + j)) (int (length inps) - 1 - c))"
proof (induction inps c j rule: next_jump.induct)
  case (1 inps c jump)
  show ?case
  proof (cases "c + jump = int (length inps) - 1")
    case True
    then have "int (length inps) - 1 - c = jump" by simp
    with True show ?thesis
      by (simp add: next_jump.simps [of inps c jump])
  next
    case False
    with "1.prems" have lt: "c + jump < int (length inps) - 1" by simp
    with "1.prems" have get: "py_get inps (c + jump) = Inr (inps ! nat (c + jump))"
      by (simp add: py_get_in_range)
    show ?thesis
    proof (cases "is_dummy (e_input (inps ! nat (c + jump)))")
      case True
      with "1.IH" [OF False get True] "1.prems" lt
      have "next_jump inps c (jump + 1) =
          Inr (min (jump + 1 + skip_fwd (dummies inps) (c + (jump + 1))) (int (length inps) - 1 - c))"
        by simp
      with True False get lt "1.prems" show ?thesis
        by (simp add: next_jump.simps [of inps c jump] skip_fwd_step [of "c + jump"] add.assoc)
    next
      case False
      with \<open>c + jump \<noteq> int (length inps) - 1\<close> get lt "1.prems" show ?thesis
        by (simp add: next_jump.simps [of inps c jump] skip_fwd_step [of "c + jump"])
    qed
  qed
qed

lemma call_input_in_range:
  "0 \<le> i \<Longrightarrow> i < int (length (inputs fw)) \<Longrightarrow>
   call_input i m fw =
     bind (m (input_at fw i))
       (\<lambda>w. ret (fw\<lparr>inputs := (inputs fw)[nat i := (inputs fw ! nat i)\<lparr>e_input := w\<rparr>]\<rparr>))"
  by (simp add: call_input_def input_at_def py_index_in_range)

lemma call_set_color:
  "0 \<le> i \<Longrightarrow> i < int (length (inputs fw)) \<Longrightarrow>
   snd (call_input i (set_color c) fw) =
     (if renderable (input_at fw i) then Inr (fw\<lparr>inputs := recolor (nat i) c (inputs fw)\<rparr>)
      else Inl IndexError)"
  by (simp add: call_input_in_range snd_bind set_color_result recolor_def input_at_def)

lemma input_at_recolor:
  "0 \<le> i \<Longrightarrow> i < int (length (inputs fw)) \<Longrightarrow>
   input_at (fw\<lparr>inputs := recolor k c (inputs fw)\<rparr>) i =
     (if nat i = k then upd_color c (input_at fw i) else input_at fw i)"
  by (simp add: input_at_def recolor_def nth_list_update)

lemma input_at_current_update [simp]: "input_at (fw\<lparr>current_input := c\<rparr>) i = input_at fw i"
  by (simp add: input_at_def)

text \<open>Where the scan of go_to_next_input ends, in terms of the specification.\<close>

lemma next_focus_cases:
  assumes "0 \<le> c" and "c < int (length ds) - 1"
  shows "next_focus ds c = (if c + 1 + skip_fwd ds (c + 1) < int (length ds)
           then c + 1 + skip_fwd ds (c + 1) else c + 1)"
  using assms by (auto simp: next_focus_def Let_def)

lemma scan_target:
  assumes "0 \<le> c" and "c < int (length ds) - 1"
  defines "t \<equiv> c + 1 + min (skip_fwd ds (c + 1)) (int (length ds) - 1 - (c + 1))"
  shows "0 \<le> t" and "t < int (length ds)"
    and "ds ! nat t \<longleftrightarrow> \<not> c + 1 + skip_fwd ds (c + 1) < int (length ds)"
    and "\<not> ds ! nat t \<Longrightarrow> t = next_focus ds c"
    and "ds ! nat t \<Longrightarrow> next_focus ds c = c + 1 \<and> ds ! nat (c + 1)"
proof -
  let ?s = "skip_fwd ds (c + 1)"
  from assms(1,2) skip_fwd_nonneg [of ds "c + 1"] show "0 \<le> t"
    unfolding t_def by (auto simp: min_def)
  from assms(1,2) show lt: "t < int (length ds)" unfolding t_def by (simp add: min_def)
  have le: "c + 1 + ?s \<le> int (length ds)"
    using skip_fwd_le [of "c + 1" ds] assms by simp
  show iff: "ds ! nat t \<longleftrightarrow> \<not> c + 1 + ?s < int (length ds)"
  proof (cases "c + 1 + ?s < int (length ds)")
    case True
    then have "t = c + 1 + ?s" unfolding t_def by (simp add: min_def)
    with True skip_fwd_stop [of "c + 1" ds] assms(1) show ?thesis by simp
  next
    case False
    with le have eq: "c + 1 + ?s = int (length ds)" by simp
    then have "t = int (length ds) - 1" unfolding t_def by (simp add: min_def)
    moreover from eq assms have "ds ! nat (int (length ds) - 1)"
      by (intro skip_fwd_all [of "c + 1"]) simp_all
    ultimately show ?thesis using False by simp
  qed
  show "t = next_focus ds c" if "\<not> ds ! nat t"
    using that iff assms(1,2) unfolding t_def by (simp add: next_focus_cases min_def)
  show "next_focus ds c = c + 1 \<and> ds ! nat (c + 1)" if "ds ! nat t"
  proof -
    from that iff le have eq: "c + 1 + ?s = int (length ds)" by simp
    with assms have "ds ! nat (c + 1)" by (intro skip_fwd_all [of "c + 1"]) simp_all
    with that iff assms show ?thesis by (simp add: next_focus_cases)
  qed
qed

lemma focus_ok_range:
  "focus_ok fw \<Longrightarrow> inputs fw \<noteq> [] \<Longrightarrow>
   0 \<le> current_input fw \<and> current_input fw < int (length (inputs fw))"
  by (cases "inputs fw") (auto simp: focus_ok_def cursor_ok_def)

lemma renderable_input_at_recolor [simp]:
  "0 \<le> i \<Longrightarrow> i < int (length (inputs fw)) \<Longrightarrow>
   renderable (input_at (fw\<lparr>inputs := recolor k c (inputs fw)\<rparr>) i) = renderable (input_at fw i)"
  by (simp add: input_at_recolor)

lemma prev_jump_eq:
  "0 \<le> j \<Longrightarrow>
   prev_jump inps d j =
     (if d - j \<le> 0 then Inr j
      else if skip_fwd (dummies inps) (d + j) < d - j then
        (if int (length inps) \<le> d + j + skip_fwd (dummies inps) (d + j) then Inl IndexError
         else Inr (j + skip_fwd (dummies inps) (d + j)))
      else Inr d)"
proof (induction inps d j rule: prev_jump.induct)
  case (1 inps c jump)
  let ?ds = "dummies inps" and ?x = "inps ! nat (c + jump)"
  note unfold = prev_jump.simps [of inps c jump]
  consider (stop) "c - jump \<le> 0" | (beyond) "0 < c - jump" "int (length inps) \<le> c + jump"
    | (inside) "0 < c - jump" "c + jump < int (length inps)" by linarith
  then show ?case
  proof cases
    case stop
    then show ?thesis by (simp add: unfold)
  next
    case beyond
    then show ?thesis by (simp add: unfold py_get_beyond)
  next
    case inside
    with "1.prems" have get: "py_get inps (c + jump) = Inr ?x"
      by (simp add: py_get_in_range)
    from inside "1.prems" have step: "skip_fwd ?ds (c + jump) =
        (if is_dummy (e_input ?x) then 1 + skip_fwd ?ds (c + jump + 1) else 0)"
      by (simp add: skip_fwd_step)
    show ?thesis
    proof (cases "is_dummy (e_input ?x)")
      case False
      with inside get step show ?thesis by (simp add: unfold)
    next
      case dummy: True
      from inside have pos: "c - jump > 0" by simp
      from "1.IH" [OF pos get dummy] "1.prems" pos get dummy step
        skip_fwd_nonneg [of ?ds "c + jump + 1"]
      show ?thesis by (auto simp: unfold add.assoc)
    qed
  qed
qed

section \<open>Lemmas: invariants and example states\<close>

lemmas example_defs = text_input_def dummy_input_def entry_of_def win_of_def

lemma widgets_ok_renderable:
  "widgets_ok fw \<Longrightarrow> 0 \<le> i \<Longrightarrow> i < int (length (inputs fw)) \<Longrightarrow> renderable (input_at fw i)"
  by (simp add: widgets_ok_def list_all_length input_at_def)

lemma next_focus_range:
  assumes "0 \<le> c" and "c < int (length ds) - 1"
  shows "c < next_focus ds c" and "next_focus ds c < int (length ds)"
  using assms skip_fwd_nonneg [of ds "c + 1"] by (auto simp: next_focus_cases)

lemma disciplined_call_input:
  "(\<And>w. disciplined (m w)) \<Longrightarrow> disciplined (call_input i m fw)"
  unfolding call_input_def by (intro disciplined_intros) simp_all

lemma disciplined_moves [simp]:
  "disciplined (go_to_next_input fw)" "disciplined (go_to_previous_input fw)"
  unfolding go_to_next_input_def go_to_previous_input_def Let_def
  by (intro disciplined_intros disciplined_call_input disciplined_set_color)+

end
