(* ===== verification/FormWin_Navigation.thy ===== *)
theory FormWin_Navigation
  imports FormWin
begin

text \<open>
  The two moves of the focus, \<^verbatim>\<open>FormWin.go_to_next_input\<close> and
  \<^verbatim>\<open>FormWin.go_to_previous_input\<close>, related to their specification.

  The step lemmas give the complete outcome of a move (trace and result) from a
  state whose focus index is in range; the theorems after them are the properties
  of the moves: the refinement of \<open>advance\<close> by \<^verbatim>\<open>go_to_next_input\<close>, that only
  dummies are skipped, what a move leaves unchanged, and the outcomes of
  \<^verbatim>\<open>go_to_previous_input\<close>, whose scan reads the inputs \<^emph>\<open>after\<close> the focus.
\<close>

section \<open>What a move draws and what it leaves alone\<close>

text \<open>The inputs with their colours forgotten: a move changes nothing else in them.\<close>

definition uncolor :: "entry list \<Rightarrow> entry list" where
  "uncolor inps = map (\<lambda>inp. inp\<lparr>e_input := upd_color unfocused (e_input inp)\<rparr>) inps"

text \<open>The inputs with their colours and widths forgotten: what drawing leaves alone.\<close>

definition plain :: "entry list \<Rightarrow> entry list" where
  "plain inps =
     map (\<lambda>inp. inp\<lparr>e_input := upd_width 0 (upd_color unfocused (e_input inp))\<rparr>) inps"

text \<open>
  The calls of a move: the input that had the focus is drawn in the unfocused
  colour, then, when the focus arrives on input \<open>k\<close>, that one in the focused colour.
\<close>

definition redraws :: "form_win \<Rightarrow> int \<Rightarrow> bool \<Rightarrow> event list" where
  "redraws fw k moved =
     fst (refresh (upd_color unfocused (input_at fw (current_input fw)))) @
     (if moved then fst (refresh (upd_color focused (input_at fw k))) else [])"

definition next_trace :: "form_win \<Rightarrow> event list" where
  "next_trace fw =
     (let k = next_focus (dummies (inputs fw)) (current_input fw) in
      if inputs fw = [] \<or> current_input fw = int (length (inputs fw)) - 1 then []
      else redraws fw k (\<not> is_dummy (input_at fw k)))"

definition previous_trace :: "form_win \<Rightarrow> event list" where
  "previous_trace fw =
     (let d = current_input fw - 1; m = skip_fwd (dummies (inputs fw)) d in
      if inputs fw = [] \<or> current_input fw = 0 then []
      else redraws fw (d - m) (m \<le> d \<and> d + m < int (length (inputs fw))))"

section \<open>Lemmas: the specification\<close>

lemma skip_fwd_all_dummies:
  assumes "0 \<le> c" and "c \<le> int (length ds)"
    and "\<And>j. c \<le> j \<Longrightarrow> j < int (length ds) \<Longrightarrow> ds ! nat j"
  shows "c + skip_fwd ds c = int (length ds)"
proof -
  have "\<forall>x \<in> set (drop (nat c) ds). id x"
  proof
    fix x assume "x \<in> set (drop (nat c) ds)"
    then obtain i where i: "i < length (drop (nat c) ds)" and x: "x = drop (nat c) ds ! i"
      by (auto simp: in_set_conv_nth)
    from i assms(1) have "ds ! nat (c + int i)" by (intro assms(3)) auto
    with i x assms(1) show "id x" by (simp add: nat_add_distrib)
  qed
  then have tw: "takeWhile id (drop (nat c) ds) = drop (nat c) ds"
    by (simp only: takeWhile_eq_all_conv)
  have "skip_fwd ds c = int (length (drop (nat c) ds))"
    unfolding skip_fwd_def by (simp only: tw)
  with assms(1,2) show ?thesis by simp
qed

lemma skip_fwd_0: "0 \<le> c \<Longrightarrow> c < int (length ds) \<Longrightarrow> \<not> ds ! nat c \<Longrightarrow> skip_fwd ds c = 0"
  by (simp add: skip_fwd_step)

lemma skip_fwd_1:
  "0 \<le> c \<Longrightarrow> c + 1 < int (length ds) \<Longrightarrow> ds ! nat c \<Longrightarrow> \<not> ds ! nat (c + 1) \<Longrightarrow>
   skip_fwd ds c = 1"
  by (simp add: skip_fwd_step [of c] skip_fwd_0)

lemma next_focus_between:
  assumes "0 \<le> c" and "c < int (length ds) - 1" and "c < j" and "j < next_focus ds c"
  shows "ds ! nat j"
proof -
  from assms skip_fwd_nonneg [of ds "c + 1"] have "j < c + 1 + skip_fwd ds (c + 1)"
    by (auto simp: next_focus_cases split: if_splits)
  with assms show ?thesis by (intro skip_fwd_all [of "c + 1"]) simp_all
qed

lemma next_focus_abort:
  assumes "0 \<le> c" and "c < int (length ds) - 1" and "ds ! nat (next_focus ds c)"
    and "c < j" and "j < int (length ds)"
  shows "ds ! nat j"
proof -
  from assms(1-3) skip_fwd_stop [of "c + 1" ds]
  have "\<not> c + 1 + skip_fwd ds (c + 1) < int (length ds)"
    by (auto simp: next_focus_cases split: if_splits)
  with assms show ?thesis by (intro skip_fwd_all [of "c + 1"]) simp_all
qed

lemma input_at_dummies:
  "0 \<le> i \<Longrightarrow> i < int (length (inputs fw)) \<Longrightarrow>
   dummies (inputs fw) ! nat i = is_dummy (input_at fw i)"
  by (simp add: input_at_def)

lemma advance_frame [simp]:
  "fw_form (advance fw) = fw_form fw" "length (inputs (advance fw)) = length (inputs fw)"
  "dummies (inputs (advance fw)) = dummies (inputs fw)"
  "fw_height (advance fw) = fw_height fw" "fw_width (advance fw) = fw_width fw"
  by (simp_all add: advance_def Let_def)

lemma advance_current:
  "current_input (advance fw) = next_focus (dummies (inputs fw)) (current_input fw)"
  by (simp add: advance_def Let_def next_focus_def)

lemma uncolor_recolor [simp]: "uncolor (recolor k c inps) = uncolor inps"
  by (cases "k < length inps")
    (simp_all add: uncolor_def recolor_def map_update list_update_same_conv list_update_beyond)

lemma length_uncolor [simp]: "length (uncolor inps) = length inps"
  by (simp add: uncolor_def)

lemma advance_uncolor [simp]: "uncolor (inputs (advance fw)) = uncolor (inputs fw)"
  by (simp add: advance_def Let_def)

lemma widgets_ok_recolor [simp]:
  "widgets_ok (fw\<lparr>inputs := recolor k c (inputs fw)\<rparr>) = widgets_ok fw"
  by (cases "k < length (inputs fw)")
    (auto simp: widgets_ok_def recolor_def list_all_length nth_list_update list_update_beyond)

lemma widgets_ok_current_update [simp]: "widgets_ok (fw\<lparr>current_input := c\<rparr>) = widgets_ok fw"
  by (simp add: widgets_ok_def)

lemma widgets_ok_advance [simp]: "widgets_ok (advance fw) = widgets_ok fw"
proof -
  let ?u = "fw\<lparr>inputs := recolor (nat (current_input fw)) unfocused (inputs fw)\<rparr>"
  have "widgets_ok (?u\<lparr>inputs := recolor k focused (inputs ?u)\<rparr>) = widgets_ok fw" for k
    by (simp only: widgets_ok_recolor)
  then show ?thesis by (simp add: advance_def Let_def)
qed

lemma advance_focus_ok: "focus_ok fw \<Longrightarrow> focus_ok (advance fw)"
proof (cases "inputs fw = [] \<or> current_input fw = int (length (inputs fw)) - 1")
  case True
  then show "focus_ok fw \<Longrightarrow> focus_ok (advance fw)" by (auto simp: advance_def)
next
  case False
  assume "focus_ok fw"
  with False have "0 \<le> current_input fw" "current_input fw < int (length (inputs fw)) - 1"
    using focus_ok_range [of fw] by auto
  then show "focus_ok (advance fw)"
    using next_focus_range [of "current_input fw" "dummies (inputs fw)"]
    by (simp add: focus_ok_def cursor_ok_def advance_current)
qed

lemma retreat_frame:
  assumes "retreat fw = Inr fw'" and "focus_ok fw"
  shows "focus_ok fw'" and "fw_form fw' = fw_form fw"
    and "uncolor (inputs fw') = uncolor (inputs fw)"
    and "fw_height fw' = fw_height fw" and "fw_width fw' = fw_width fw"
  using assms skip_fwd_nonneg [of "dummies (inputs fw)" "current_input fw - 1"]
  by (auto simp: retreat_def Let_def focus_ok_def cursor_ok_def split: if_splits)

section \<open>Lemmas: one move, step by step\<close>

lemma call_set_color_io:
  "0 \<le> i \<Longrightarrow> i < int (length (inputs fw)) \<Longrightarrow>
   call_input i (set_color c) fw =
     (fst (refresh (upd_color c (input_at fw i))),
      if renderable (input_at fw i) then Inr (fw\<lparr>inputs := recolor (nat i) c (inputs fw)\<rparr>)
      else Inl IndexError)"
  by (simp add: prod_eq_iff call_set_color)
    (simp add: call_input_in_range fst_bind set_color_trace split: sum.splits)

text \<open>
  A move from a focused input that can be drawn, up to the end of its scan: the old
  input has been redrawn, the scan has stopped at \<open>t\<close> (forwards) or computed the
  jump \<open>j\<close> (backwards).
\<close>

lemma go_to_next_input_scan:
  assumes c: "0 \<le> current_input fw" "current_input fw < int (length (inputs fw)) - 1"
    and r: "renderable (input_at fw (current_input fw))"
  defines "inps \<equiv> recolor (nat (current_input fw)) unfocused (inputs fw)"
  defines "t \<equiv> current_input fw + 1 +
    min (skip_fwd (dummies (inputs fw)) (current_input fw + 1))
        (int (length (inputs fw)) - 1 - (current_input fw + 1))"
  shows "go_to_next_input fw =
     bind (fst (refresh (upd_color unfocused (input_at fw (current_input fw)))), Inr ())
       (\<lambda>_. if dummies (inputs fw) ! nat t
            then ret (fw\<lparr>inputs := inps, current_input := current_input fw + 1\<rparr>)
            else call_input t (set_color focused) (fw\<lparr>inputs := inps, current_input := t\<rparr>))"
proof -
  let ?c = "current_input fw" and ?ds = "dummies (inputs fw)"
  from c have ne: "inputs fw \<noteq> []" "?c \<noteq> int (length (inputs fw)) - 1" by auto
  from c r have s1: "call_input ?c (set_color unfocused) fw =
      (fst (refresh (upd_color unfocused (input_at fw ?c))), Inr (fw\<lparr>inputs := inps\<rparr>))"
    by (simp add: call_set_color_io inps_def)
  from c have s2: "next_jump inps (?c + 1) 0 = Inr (t - (?c + 1))"
    by (simp add: next_jump_eq inps_def t_def)
  from c have t: "0 \<le> t" "t < int (length ?ds)"
    unfolding t_def using scan_target [of ?c ?ds] by simp_all
  then have s3: "py_get inps t = Inr (inps ! nat t)"
    by (simp add: py_get_in_range inps_def)
  have d: "is_dummy (e_input (inps ! nat t)) = ?ds ! nat t"
    using t nth_dummies [of "nat t" inps] by (simp add: inps_def)
  from ne s1 s2 s3 d show ?thesis
    by (simp add: go_to_next_input_def Let_def ret_def)
qed

lemma go_to_next_input_step:
  assumes c: "0 \<le> current_input fw" "current_input fw < int (length (inputs fw)) - 1"
    and r: "renderable (input_at fw (current_input fw))"
  defines "k \<equiv> next_focus (dummies (inputs fw)) (current_input fw)"
  shows "go_to_next_input fw =
     (next_trace fw,
      if \<not> is_dummy (input_at fw k) \<and> \<not> renderable (input_at fw k) then Inl IndexError
      else Inr (advance fw))"
proof -
  let ?c = "current_input fw" and ?ds = "dummies (inputs fw)"
  let ?inps = "recolor (nat ?c) unfocused (inputs fw)"
  let ?t = "?c + 1 + min (skip_fwd ?ds (?c + 1)) (int (length (inputs fw)) - 1 - (?c + 1))"
  from c have ne: "inputs fw \<noteq> []" "?c \<noteq> int (length (inputs fw)) - 1" by auto
  from c have t: "0 \<le> ?t" "?t < int (length ?ds)"
    and td: "\<not> ?ds ! nat ?t \<Longrightarrow> ?t = k"
    and ta: "?ds ! nat ?t \<Longrightarrow> k = ?c + 1 \<and> ?ds ! nat (?c + 1)"
    unfolding k_def using scan_target [of ?c ?ds] by simp_all
  show ?thesis
  proof (cases "?ds ! nat ?t")
    case True
    with ta c have "k = ?c + 1" "?ds ! nat k" "is_dummy (input_at fw k)"
      by (simp_all add: input_at_def)
    with True ne show ?thesis
      by (simp add: go_to_next_input_scan [OF c r] Let_def advance_def next_trace_def
          redraws_def k_def [symmetric] ret_def)
  next
    case False
    with td have k: "?t = k" by simp
    with t have kr: "0 \<le> k" "k < int (length (inputs fw))" by simp_all
    from c have "?c < k" unfolding k_def using next_focus_range [of ?c ?ds] by simp
    with c have "nat k \<noteq> nat ?c" by simp
    with c kr have at: "input_at (fw\<lparr>inputs := ?inps\<rparr>) k = input_at fw k"
      by (simp add: input_at_recolor)
    from False k kr have nd: "\<not> is_dummy (input_at fw k)" "\<not> ?ds ! nat k"
      by (simp_all add: input_at_def)
    from kr at have "call_input k (set_color focused) (fw\<lparr>inputs := ?inps, current_input := k\<rparr>) =
        (fst (refresh (upd_color focused (input_at fw k))),
         if renderable (input_at fw k)
         then Inr (fw\<lparr>inputs := recolor (nat k) focused ?inps, current_input := k\<rparr>)
         else Inl IndexError)"
      by (simp add: call_set_color_io input_at_def)
    with False k nd ne show ?thesis
      by (simp add: go_to_next_input_scan [OF c r] Let_def advance_def next_trace_def
          redraws_def k_def [symmetric])
  qed
qed

lemma go_to_previous_input_scan:
  assumes c: "0 < current_input fw" "current_input fw < int (length (inputs fw))"
    and r: "renderable (input_at fw (current_input fw))"
  defines "inps \<equiv> recolor (nat (current_input fw)) unfocused (inputs fw)"
  defines "d \<equiv> current_input fw - 1"
  shows "go_to_previous_input fw =
     bind (fst (refresh (upd_color unfocused (input_at fw (current_input fw)))), Inr ())
       (\<lambda>_. bind (lift (prev_jump inps d 0))
       (\<lambda>j. bind (lift (py_get inps (d + j)))
       (\<lambda>inp. if is_dummy (e_input inp) then ret (fw\<lparr>inputs := inps, current_input := d\<rparr>)
               else call_input (d - j) (set_color focused)
                      (fw\<lparr>inputs := inps, current_input := d - j\<rparr>))))"
proof -
  from c have ne: "inputs fw \<noteq> []" "current_input fw \<noteq> 0" by auto
  from c r have "call_input (current_input fw) (set_color unfocused) fw =
      (fst (refresh (upd_color unfocused (input_at fw (current_input fw)))),
       Inr (fw\<lparr>inputs := inps\<rparr>))"
    by (simp add: call_set_color_io inps_def)
  with ne show ?thesis by (simp add: go_to_previous_input_def Let_def d_def cong: if_cong)
qed

text \<open>The three outcomes of the backward scan from \<open>d\<close>, the index before the focus.\<close>

lemma prev_jump_cases:
  assumes d: "0 \<le> d" "d < int (length inps)"
  defines "m \<equiv> skip_fwd (dummies inps) d"
  obtains (abort) "d < m" "prev_jump inps d 0 = Inr d" "py_get inps (d + d) = Inr (inps ! nat (d + d))"
      "is_dummy (e_input (inps ! nat (d + d)))"
    | (error) "m \<le> d" "int (length inps) \<le> d + m"
      "case prev_jump inps d 0 of Inl e \<Rightarrow> e = IndexError
       | Inr j \<Rightarrow> py_get inps (d + j) = Inl IndexError"
    | (move) "0 \<le> m" "m \<le> d" "d + m < int (length inps)" "prev_jump inps d 0 = Inr m"
      "py_get inps (d + m) = Inr (inps ! nat (d + m))" "\<not> is_dummy (e_input (inps ! nat (d + m)))"
proof -
  have s2: "prev_jump inps d 0 =
     (if d \<le> 0 then Inr 0
      else if m < d then (if int (length inps) \<le> d + m then Inl IndexError else Inr m)
      else Inr d)"
    by (simp add: prev_jump_eq m_def)
  have m0: "0 \<le> m" by (simp add: m_def skip_fwd_nonneg)
  have dummy: "is_dummy (e_input (inps ! nat j)) = dummies inps ! nat j"
    if "0 \<le> j" "j < int (length inps)" for j
    using that nth_dummies [of "nat j" inps] by simp
  consider "d < m" | "m \<le> d" "int (length inps) \<le> d + m"
    | "m \<le> d" "d + m < int (length inps)" by linarith
  then show ?thesis
  proof cases
    case 1
    with d skip_fwd_le [of d "dummies inps"] have r: "d + d < int (length inps)"
      by (simp add: m_def)
    from 1 d have "dummies inps ! nat (d + d)"
      by (intro skip_fwd_all [of d]) (simp_all add: m_def)
    with 1 d r dummy [of "d + d"] show ?thesis
      by (intro abort) (auto simp: s2 py_get_in_range)
  next
    case 2
    with d m0 have "prev_jump inps d 0 = Inl IndexError \<or> (prev_jump inps d 0 = Inr d \<and> m = d)"
      by (auto simp: s2)
    with 2 show ?thesis by (intro error) (auto simp: py_get_beyond)
  next
    case 3
    with d m0 skip_fwd_stop [of d "dummies inps"] have "\<not> dummies inps ! nat (d + m)"
      by (simp add: m_def)
    with 3 d m0 dummy [of "d + m"] show ?thesis
      by (intro move) (auto simp: s2 py_get_in_range)
  qed
qed

lemma go_to_previous_input_step:
  assumes c: "0 < current_input fw" "current_input fw < int (length (inputs fw))"
    and r: "renderable (input_at fw (current_input fw))"
  defines "d \<equiv> current_input fw - 1"
  defines "m \<equiv> skip_fwd (dummies (inputs fw)) d"
  shows "go_to_previous_input fw =
     (previous_trace fw,
      if m \<le> d \<and> d + m < int (length (inputs fw)) \<and> \<not> renderable (input_at fw (d - m))
      then Inl IndexError else retreat fw)"
proof -
  let ?c = "current_input fw"
  let ?inps = "recolor (nat ?c) unfocused (inputs fw)"
  from c have d0: "0 \<le> d" "d < int (length ?inps)" "inputs fw \<noteq> []" "?c \<noteq> 0"
    by (auto simp: d_def)
  note unfold = go_to_previous_input_scan [OF c r] Let_def retreat_def previous_trace_def
    redraws_def m_def [symmetric] d_def [symmetric]
  from d0(1,2) show ?thesis
  proof (cases rule: prev_jump_cases)
    case abort
    with d0 show ?thesis by (simp add: unfold ret_def)
  next
    case error
    with d0 show ?thesis by (auto simp: unfold raise_def split: sum.splits)
  next
    case move
    with d0 have "nat (d - skip_fwd (dummies (inputs fw)) d) \<noteq> nat ?c" by (simp add: d_def)
    with move d0 have "input_at (fw\<lparr>inputs := ?inps\<rparr>) (d - m) = input_at fw (d - m)"
      by (simp add: input_at_recolor m_def)
    with move d0 show ?thesis
      by (simp add: unfold call_set_color_io input_at_def)
  qed
qed

section \<open>Lemmas: the outcome of a move\<close>

lemma go_to_next_input_unrenderable:
  assumes "0 \<le> current_input fw" "current_input fw < int (length (inputs fw)) - 1"
    and "\<not> renderable (input_at fw (current_input fw))"
  shows "snd (go_to_next_input fw) = Inl IndexError"
proof -
  from assms(1,2) have "inputs fw \<noteq> []" "current_input fw \<noteq> int (length (inputs fw)) - 1"
    by auto
  moreover from assms have "snd (call_input (current_input fw) (set_color unfocused) fw) = Inl IndexError"
    by (simp add: call_set_color)
  ultimately show ?thesis by (simp add: go_to_next_input_def snd_bind)
qed

lemma go_to_next_input_result:
  assumes "focus_ok fw"
  shows "snd (go_to_next_input fw) =
     (if inputs fw = [] \<or> current_input fw = int (length (inputs fw)) - 1 then Inr fw
      else if \<not> renderable (input_at fw (current_input fw)) \<or>
              \<not> is_dummy (input_at fw (next_focus (dummies (inputs fw)) (current_input fw))) \<and>
              \<not> renderable (input_at fw (next_focus (dummies (inputs fw)) (current_input fw)))
      then Inl IndexError
      else Inr (advance fw))"
proof (cases "inputs fw = [] \<or> current_input fw = int (length (inputs fw)) - 1")
  case True
  then show ?thesis by (auto simp: go_to_next_input_def)
next
  case False
  with assms have c: "0 \<le> current_input fw" "current_input fw < int (length (inputs fw)) - 1"
    using focus_ok_range [of fw] by auto
  with False show ?thesis
    by (cases "renderable (input_at fw (current_input fw))")
      (simp_all add: go_to_next_input_step go_to_next_input_unrenderable)
qed

lemma go_to_previous_input_result:
  assumes "focus_ok fw"
  shows "snd (go_to_previous_input fw) =
     (if inputs fw = [] \<or> current_input fw = 0 then Inr fw
      else if \<not> renderable (input_at fw (current_input fw)) then Inl IndexError
      else if skip_fwd (dummies (inputs fw)) (current_input fw - 1) \<le> current_input fw - 1 \<and>
              current_input fw - 1 + skip_fwd (dummies (inputs fw)) (current_input fw - 1)
                < int (length (inputs fw)) \<and>
              \<not> renderable (input_at fw (current_input fw - 1 -
                   skip_fwd (dummies (inputs fw)) (current_input fw - 1)))
      then Inl IndexError
      else retreat fw)"
proof (cases "inputs fw = [] \<or> current_input fw = 0")
  case True
  then show ?thesis by (auto simp: go_to_previous_input_def retreat_def)
next
  case False
  with assms have c: "0 < current_input fw" "current_input fw < int (length (inputs fw))"
    using focus_ok_range [of fw] by auto
  show ?thesis
  proof (cases "renderable (input_at fw (current_input fw))")
    case True
    with c False show ?thesis by (simp add: go_to_previous_input_step)
  next
    case False
    with c have "snd (call_input (current_input fw) (set_color unfocused) fw) = Inl IndexError"
      by (simp add: call_set_color)
    with False c show ?thesis by (simp add: go_to_previous_input_def snd_bind)
  qed
qed

lemma moves_trace:
  assumes "focus_ok fw" and "inputs fw \<noteq> [] \<longrightarrow> renderable (input_at fw (current_input fw))"
  shows "fst (go_to_next_input fw) = next_trace fw"
    and "fst (go_to_previous_input fw) = previous_trace fw"
proof -
  from assms(1) have c: "0 \<le> current_input fw \<and> current_input fw < int (length (inputs fw))"
    if "inputs fw \<noteq> []" using that by (rule focus_ok_range)
  show "fst (go_to_next_input fw) = next_trace fw"
  proof (cases "inputs fw = [] \<or> current_input fw = int (length (inputs fw)) - 1")
    case True
    then show ?thesis by (auto simp: go_to_next_input_def next_trace_def)
  next
    case False
    with c assms(2) show ?thesis by (simp add: go_to_next_input_step)
  qed
  show "fst (go_to_previous_input fw) = previous_trace fw"
  proof (cases "inputs fw = [] \<or> current_input fw = 0")
    case True
    then show ?thesis by (auto simp: go_to_previous_input_def previous_trace_def)
  next
    case False
    with c assms(2) show ?thesis by (simp add: go_to_previous_input_step)
  qed
qed

lemma moves_ok:
  assumes "focus_ok fw" and "widgets_ok fw"
  shows "snd (go_to_next_input fw) = Inr (advance fw)"
    and "snd (go_to_previous_input fw) = retreat fw"
proof -
  let ?c = "current_input fw" and ?ds = "dummies (inputs fw)"
  have r: "renderable (input_at fw i)" if "0 \<le> i" "i < int (length (inputs fw))" for i
    using assms(2) that by (rule widgets_ok_renderable)
  from assms(1) have c: "0 \<le> ?c" "?c < int (length (inputs fw))" if "inputs fw \<noteq> []"
    using that focus_ok_range [of fw] by simp_all
  show "snd (go_to_next_input fw) = Inr (advance fw)"
  proof (cases "inputs fw = [] \<or> ?c = int (length (inputs fw)) - 1")
    case True
    with assms(1) show ?thesis by (auto simp: go_to_next_input_result advance_def)
  next
    case False
    with c have "0 \<le> next_focus ?ds ?c" "next_focus ?ds ?c < int (length (inputs fw))"
      using next_focus_range [of ?c ?ds] by simp_all
    with False c r assms(1) show ?thesis by (simp add: go_to_next_input_result)
  qed
  show "snd (go_to_previous_input fw) = retreat fw"
  proof (cases "inputs fw = [] \<or> ?c = 0")
    case True
    with assms(1) show ?thesis by (auto simp: go_to_previous_input_result retreat_def)
  next
    case False
    let ?d = "?c - 1"
    let ?m = "skip_fwd ?ds ?d"
    have "renderable (input_at fw (?d - ?m))" if "?m \<le> ?d"
      using that c False skip_fwd_nonneg [of ?ds ?d] by (intro r) simp_all
    with False c r assms(1) show ?thesis by (auto simp: go_to_previous_input_result)
  qed
qed

lemma moves_frame:
  assumes "focus_ok fw"
    and "snd (go_to_next_input fw) = Inr fw' \<or> snd (go_to_previous_input fw) = Inr fw'"
  shows "focus_ok fw'" and "fw_form fw' = fw_form fw"
    and "uncolor (inputs fw') = uncolor (inputs fw)"
  using assms
  by (auto simp: go_to_next_input_result go_to_previous_input_result advance_focus_ok
      split: if_splits dest: retreat_frame)

lemma moves_size:
  assumes "focus_ok fw"
    and "snd (go_to_next_input fw) = Inr fw' \<or> snd (go_to_previous_input fw) = Inr fw'"
  shows "fw_height fw' = fw_height fw" and "fw_width fw' = fw_width fw"
  using assms
  by (auto simp: go_to_next_input_result go_to_previous_input_result
      split: if_splits dest: retreat_frame)

lemma length_plain [simp]: "length (plain inps) = length inps"
  by (simp add: plain_def)

lemma plain_uncolor: "plain inps = map (\<lambda>inp. inp\<lparr>e_input := upd_width 0 (e_input inp)\<rparr>) (uncolor inps)"
  by (simp add: plain_def uncolor_def)

lemma plain_nth:
  assumes "plain inps' = plain inps" and "i < length inps"
  shows "upd_width 0 (upd_color unfocused (e_input (inps' ! i))) =
     upd_width 0 (upd_color unfocused (e_input (inps ! i)))"
proof -
  from assms(1) have "length inps' = length inps"
    using length_plain [of inps] length_plain [of inps'] by simp
  moreover from assms(1) have "e_input (plain inps' ! i) = e_input (plain inps ! i)" by simp
  ultimately show ?thesis using assms(2) by (simp add: plain_def)
qed

lemma plain_cong:
  assumes "plain (inputs fw') = plain (inputs fw)"
  shows "refs fw' = refs fw" and "dummies (inputs fw') = dummies (inputs fw)"
    and "inputs_inv fw' = inputs_inv fw" and "widgets_ok fw' = widgets_ok fw"
    and "length (inputs fw') = length (inputs fw)"
proof -
  from assms show len: "length (inputs fw') = length (inputs fw)"
    using length_plain [of "inputs fw"] length_plain [of "inputs fw'"] by simp
  have eq: "P (e_input (inputs fw' ! i)) = P (e_input (inputs fw ! i))"
    if "i < length (inputs fw)" and "\<And>w. P (upd_width 0 (upd_color unfocused w)) = P w"
    for P :: "input \<Rightarrow> 'a" and i
  proof -
    have "P (e_input (inputs fw' ! i)) =
        P (upd_width 0 (upd_color unfocused (e_input (inputs fw' ! i))))"
      by (simp only: that(2))
    also have "\<dots> = P (upd_width 0 (upd_color unfocused (e_input (inputs fw ! i))))"
      by (simp only: plain_nth [OF assms that(1)])
    finally show ?thesis by (simp only: that(2))
  qed
  have 1: "fld (e_input (inputs fw' ! i)) = fld (e_input (inputs fw ! i))"
    and 2: "is_dummy (e_input (inputs fw' ! i)) = is_dummy (e_input (inputs fw ! i))"
    and 3: "input_inv (e_input (inputs fw' ! i)) = input_inv (e_input (inputs fw ! i))"
    and 4: "renderable (e_input (inputs fw' ! i)) = renderable (e_input (inputs fw ! i))"
    if "i < length (inputs fw)" for i
    using that by (intro eq; simp)+
  from len 1 show "refs fw' = refs fw" by (intro nth_equalityI) (simp_all add: refs_def)
  from len 2 show "dummies (inputs fw') = dummies (inputs fw)" by (intro nth_equalityI) simp_all
  from len 3 show "inputs_inv fw' = inputs_inv fw" by (simp add: inputs_inv_def list_all_length)
  from len 3 4 show "widgets_ok fw' = widgets_ok fw" by (simp add: widgets_ok_def list_all_length)
qed

lemma uncolor_plain: "uncolor inps' = uncolor inps \<Longrightarrow> plain inps' = plain inps"
  by (simp add: plain_uncolor)

lemmas uncolor_cong = plain_cong [OF uncolor_plain]

section \<open>Lemmas: example states\<close>

lemma focus_ok_win_of [simp]: "focus_ok (win_of ws c) \<longleftrightarrow> cursor_ok ws c"
  by (simp add: focus_ok_def win_of_def cursor_ok_def)

lemma widgets_ok_win_of [simp]:
  "widgets_ok (win_of ws c) \<longleftrightarrow> list_all (\<lambda>w. input_inv w \<and> renderable w) ws"
  by (simp add: widgets_ok_def win_of_def entry_of_def list_all_iff)

lemma inputs_win_of [simp]: "inputs (win_of ws c) = map entry_of ws"
  and current_input_win_of [simp]: "current_input (win_of ws c) = c"
  by (simp_all add: win_of_def)

lemma input_at_win_of [simp]: "0 \<le> i \<Longrightarrow> i < int (length ws) \<Longrightarrow> input_at (win_of ws c) i = ws ! nat i"
  by (simp add: input_at_def entry_of_def)

lemma dummies_win_of [simp]: "dummies (map entry_of ws) = map is_dummy ws"
  by (simp add: dummies_def entry_of_def)

lemma example_inputs_ok [simp]:
  "input_inv (text_input r s)" "renderable (text_input r s)"
  "input_inv (dummy_input r)" "renderable (dummy_input r)"
  "is_dummy (dummy_input r)" "\<not> is_dummy (text_input r s)"
  "input_inv (upd_color c w) = input_inv w" "renderable (upd_color c w) = renderable w"
  by (simp_all add: text_input_def dummy_input_def cursor_ok_def input_inv_upd renderable_upd)

lemmas example_eval = advance_def retreat_def next_focus_def skip_fwd_def recolor_def
  dummies_def cursor_ok_def example_defs

section \<open>Lemmas: where a move back arrives\<close>

lemma retreat_moves:
  assumes "inputs fw \<noteq> []" and "0 < current_input fw"
    and "skip_fwd (dummies (inputs fw)) (current_input fw - 1) \<le> current_input fw - 1"
    and "current_input fw - 1 + skip_fwd (dummies (inputs fw)) (current_input fw - 1)
           < int (length (inputs fw))"
  shows "\<exists>fw'. retreat fw = Inr fw' \<and>
     current_input fw' = current_input fw - 1 - skip_fwd (dummies (inputs fw)) (current_input fw - 1)"
  using assms by (simp add: retreat_def Let_def)

lemma prev_focus_adjacent:
  assumes "0 < c" and "c < int (length ds)" and "\<not> ds ! nat (c - 1)"
  shows "prev_focus ds c = c - 1"
proof -
  let ?c' = "int (length ds) - 1 - c"
  from assms(1,2) have c': "0 \<le> ?c'" "?c' < int (length (rev ds)) - 1" by simp_all
  from assms(1,2) have "length ds - Suc (nat (?c' + 1)) = nat (c - 1)" by auto
  with assms have "\<not> rev ds ! nat (?c' + 1)" by (simp add: rev_nth)
  with c' have "skip_fwd (rev ds) (?c' + 1) = 0" by (intro skip_fwd_0) simp_all
  with c' have "next_focus (rev ds) ?c' = ?c' + 1" by (simp add: next_focus_cases)
  then show ?thesis by (simp add: prev_focus_def)
qed

section \<open>Properties of go_to_next_input\<close>

text \<open>
  C1.  On a form window whose focus index is in range and whose inputs can all be
  drawn, \<^verbatim>\<open>go_to_next_input\<close> raises nothing, leaves exactly the state \<open>advance\<close>
  describes and makes exactly the calls \<open>next_trace\<close> lists: the focus is on the
  first input after the old one that is not a dummy (one past the old one when only
  dummies follow), the old input is redrawn in the unfocused colour, and the new one
  in the focused colour unless it is a dummy.
\<close>

theorem go_to_next_input_refines:
  assumes "focus_ok fw" and "widgets_ok fw"
  shows "go_to_next_input fw = (next_trace fw, Inr (advance fw))"
proof -
  from assms have "inputs fw \<noteq> [] \<longrightarrow> renderable (input_at fw (current_input fw))"
    using focus_ok_range [of fw] by (simp add: widgets_ok_renderable)
  with assms show ?thesis by (simp add: prod_eq_iff moves_ok moves_trace)
qed

theorem go_to_next_input_refines_witness:
  "focus_ok (win_of [text_input 0 [], dummy_input 1, text_input 2 []] 0) \<and>
   widgets_ok (win_of [text_input 0 [], dummy_input 1, text_input 2 []] 0) \<and>
   snd (go_to_next_input (win_of [text_input 0 [], dummy_input 1, text_input 2 []] 0)) =
     Inr (win_of [text_input 0 [], dummy_input 1, upd_color focused (text_input 2 [])] 2)"
proof -
  let ?W = "win_of [text_input 0 [], dummy_input 1, text_input 2 []] 0"
  have 1: "focus_ok ?W" by (simp add: cursor_ok_def)
  have 2: "widgets_ok ?W" by simp
  have "advance ?W = win_of [text_input 0 [], dummy_input 1, upd_color focused (text_input 2 [])] 2"
    by (simp add: example_eval)
  with go_to_next_input_refines [OF 1 2] 1 2 show ?thesis by simp
qed

text \<open>
  C7.  When \<^verbatim>\<open>go_to_next_input\<close> returns from a state whose focus is not on the
  last input, the focus has moved forward and is still in range, every input it
  passed over is a dummy, and it rests on a dummy only when every input after the
  old position is one.
\<close>

theorem go_to_next_input_skips_dummies:
  assumes "focus_ok fw" and "widgets_ok fw"
    and "current_input fw < int (length (inputs fw)) - 1"
    and "snd (go_to_next_input fw) = Inr fw'"
  shows "current_input fw < current_input fw' \<and> current_input fw' < int (length (inputs fw)) \<and>
    (\<forall>j. current_input fw < j \<and> j < current_input fw' \<longrightarrow> is_dummy (input_at fw j)) \<and>
    (is_dummy (input_at fw' (current_input fw')) \<longrightarrow>
       (\<forall>j. current_input fw < j \<and> j < int (length (inputs fw)) \<longrightarrow> is_dummy (input_at fw j)))"
proof -
  let ?c = "current_input fw" and ?ds = "dummies (inputs fw)"
  let ?k = "next_focus ?ds ?c"
  from assms(1,3) have c: "0 \<le> ?c" "?c < int (length ?ds) - 1"
    by (auto simp: focus_ok_def cursor_ok_def)
  from assms have fw': "fw' = advance fw" by (simp add: moves_ok)
  from c have range: "?c < ?k" "?k < int (length (inputs fw))" "0 \<le> ?k"
    using next_focus_range [of ?c ?ds] by simp_all
  have "is_dummy (input_at fw j)" if "?c < j" "j < ?k" for j
    using next_focus_between [OF c that] that c range by (simp add: input_at_def)
  moreover have "is_dummy (input_at fw j)"
    if "is_dummy (input_at fw' ?k)" "?c < j" "j < int (length (inputs fw))" for j
  proof -
    from range that(1) have "?ds ! nat ?k"
      using input_at_dummies [of ?k "advance fw"] by (simp add: fw')
    from next_focus_abort [OF c this that(2)] that c show ?thesis
      by (simp add: input_at_def)
  qed
  ultimately show ?thesis using range by (auto simp: fw' advance_current)
qed

theorem go_to_next_input_skips_dummies_witness:
  "focus_ok (win_of [text_input 0 [], dummy_input 1, text_input 2 []] 0) \<and>
   widgets_ok (win_of [text_input 0 [], dummy_input 1, text_input 2 []] 0) \<and>
   snd (go_to_next_input (win_of [text_input 0 [], dummy_input 1, text_input 2 []] 0)) =
     Inr (win_of [text_input 0 [], dummy_input 1, upd_color focused (text_input 2 [])] 2) \<and>
   is_dummy (input_at (win_of [text_input 0 [], dummy_input 1, text_input 2 []] 0) 1)"
proof -
  let ?W = "win_of [text_input 0 [], dummy_input 1, text_input 2 []] 0"
  let ?W' = "win_of [text_input 0 [], dummy_input 1, upd_color focused (text_input 2 [])] 2"
  have 1: "focus_ok ?W" by (simp add: cursor_ok_def)
  have 2: "widgets_ok ?W" by simp
  have "advance ?W = ?W'" by (simp add: example_eval)
  with moves_ok(1) [OF 1 2] have 3: "snd (go_to_next_input ?W) = Inr ?W'" by simp
  from go_to_next_input_skips_dummies [OF 1 2 _ 3] 1 2 3 show ?thesis by simp
qed

text \<open>
  C22.  A move of the focus in either direction that returns keeps the focus index
  in range, leaves the form untouched and changes nothing of the inputs but their
  colours.
\<close>

theorem navigation_frame:
  assumes "focus_ok fw"
    and "snd (go_to_next_input fw) = Inr fw' \<or> snd (go_to_previous_input fw) = Inr fw'"
  shows "focus_ok fw' \<and> fw_form fw' = fw_form fw \<and> uncolor (inputs fw') = uncolor (inputs fw) \<and>
    refs fw' = refs fw \<and> dummies (inputs fw') = dummies (inputs fw) \<and>
    inputs_inv fw' = inputs_inv fw \<and> widgets_ok fw' = widgets_ok fw \<and>
    fw_height fw' = fw_height fw \<and> fw_width fw' = fw_width fw"
proof -
  from assms have "uncolor (inputs fw') = uncolor (inputs fw)" by (rule moves_frame)
  from uncolor_cong [OF this] moves_frame [OF assms] moves_size [OF assms] show ?thesis
    by simp
qed

theorem navigation_frame_witness:
  "focus_ok (win_of [text_input 0 [], dummy_input 1, text_input 2 []] 0) \<and>
   snd (go_to_next_input (win_of [text_input 0 [], dummy_input 1, text_input 2 []] 0)) =
     Inr (win_of [text_input 0 [], dummy_input 1, upd_color focused (text_input 2 [])] 2) \<and>
   focus_ok (win_of [text_input 0 [], dummy_input 1, upd_color focused (text_input 2 [])] 2) \<and>
   uncolor (inputs (win_of [text_input 0 [], dummy_input 1, upd_color focused (text_input 2 [])] 2)) =
     uncolor (inputs (win_of [text_input 0 [], dummy_input 1, text_input 2 []] 0))"
proof -
  let ?W = "win_of [text_input 0 [], dummy_input 1, text_input 2 []] 0"
  let ?W' = "win_of [text_input 0 [], dummy_input 1, upd_color focused (text_input 2 [])] 2"
  have 1: "focus_ok ?W" by (simp add: cursor_ok_def)
  have 2: "widgets_ok ?W" by simp
  have "advance ?W = ?W'" by (simp add: example_eval)
  with moves_ok(1) [OF 1 2] have 3: "snd (go_to_next_input ?W) = Inr ?W'" by simp
  from navigation_frame [OF 1 disjI1, OF 3] 1 3 show ?thesis by simp
qed

section \<open>Properties of go_to_previous_input\<close>

text \<open>
  C10.  On a form window whose focus index is in range and whose inputs can all be
  drawn, \<^verbatim>\<open>go_to_previous_input\<close> has exactly the outcome \<open>retreat\<close> and makes the
  calls \<open>previous_trace\<close> lists.  With \<open>d\<close> the index before the focus and \<open>m\<close> the
  number of consecutive dummies from \<open>d\<close> \<^emph>\<open>onwards\<close> (the scan tests the inputs
  at \<open>d + jump\<close>), the focus moves to \<open>d - m\<close>, which is given the focused colour,
  when \<open>m \<le> d\<close> and \<open>d + m\<close> is an index; an \<^verbatim>\<open>IndexError\<close> is raised when \<open>m \<le> d\<close>
  and \<open>d + m\<close> is past the end; and the focus stays on \<open>d\<close> when \<open>d < m\<close>.
\<close>

theorem go_to_previous_input_retreats:
  assumes "focus_ok fw" and "widgets_ok fw"
  shows "go_to_previous_input fw = (previous_trace fw, retreat fw)"
proof -
  from assms have "inputs fw \<noteq> [] \<longrightarrow> renderable (input_at fw (current_input fw))"
    using focus_ok_range [of fw] by (simp add: widgets_ok_renderable)
  with assms show ?thesis by (simp add: prod_eq_iff moves_ok moves_trace)
qed

theorem go_to_previous_input_retreats_witness:
  "focus_ok (win_of [text_input 0 [], dummy_input 1, text_input 2 []] 2) \<and>
   widgets_ok (win_of [text_input 0 [], dummy_input 1, text_input 2 []] 2) \<and>
   snd (go_to_previous_input (win_of [text_input 0 [], dummy_input 1, text_input 2 []] 2)) =
     Inr (win_of [upd_color focused (text_input 0 []), dummy_input 1, text_input 2 []] 0)"
proof -
  let ?W = "win_of [text_input 0 [], dummy_input 1, text_input 2 []] 2"
  have 1: "focus_ok ?W" by (simp add: cursor_ok_def)
  have 2: "widgets_ok ?W" by simp
  have "retreat ?W =
      Inr (win_of [upd_color focused (text_input 0 []), dummy_input 1, text_input 2 []] 0)"
    by (simp add: example_eval)
  with go_to_previous_input_retreats [OF 1 2] 1 2 show ?thesis by simp
qed

text \<open>
  C11.  \<^verbatim>\<open>go_to_previous_input\<close> raises \<^verbatim>\<open>IndexError\<close> when the input before the
  focus and every input after it are dummies and the list is at most twice as long
  as the index before the focus: the scan walks forward over the dummies and reads
  past the end of the list.  Such a state is reached from the first input by
  \<^verbatim>\<open>go_to_next_input\<close> alone when the form ends in two dummies.
\<close>

theorem go_to_previous_input_index_error:
  assumes "focus_ok fw" and "widgets_ok fw" and "0 < current_input fw"
    and "\<forall>j. current_input fw - 1 \<le> j \<and> j < int (length (inputs fw)) \<longrightarrow>
           is_dummy (input_at fw j)"
    and "int (length (inputs fw)) \<le> 2 * (current_input fw - 1)"
  shows "snd (go_to_previous_input fw) = Inl IndexError"
proof -
  let ?d = "current_input fw - 1" and ?ds = "dummies (inputs fw)"
  from assms(1,3) have ne: "inputs fw \<noteq> []" by (auto simp: focus_ok_def cursor_ok_def)
  with assms(1) have c: "current_input fw < int (length (inputs fw))"
    using focus_ok_range [of fw] by simp
  from assms(3,4) c have "?d + skip_fwd ?ds ?d = int (length ?ds)"
    by (intro skip_fwd_all_dummies) (simp_all add: input_at_def)
  with assms(3,5) ne c have "retreat fw = Inl IndexError"
    by (simp add: retreat_def Let_def)
  with assms(1,2) show ?thesis by (simp add: moves_ok)
qed

theorem go_to_previous_input_index_error_witness:
  "snd (bind (go_to_next_input
         (win_of [text_input 0 [], text_input 1 [], dummy_input 2, dummy_input 3] 0))
       (\<lambda>fw. bind (go_to_next_input fw) go_to_next_input)) =
     Inr (win_of [text_input 0 [], text_input 1 [], dummy_input 2, dummy_input 3] 3) \<and>
   snd (go_to_previous_input
         (win_of [text_input 0 [], text_input 1 [], dummy_input 2, dummy_input 3] 3)) =
     Inl IndexError"
proof -
  let ?ws = "[text_input 0 [], text_input 1 [], dummy_input 2, dummy_input 3]"
  let ?ws1 = "[text_input 0 [], upd_color focused (text_input 1 []), dummy_input 2, dummy_input 3]"
  have ok: "focus_ok (win_of ?ws 0)" "widgets_ok (win_of ?ws 0)"
    "focus_ok (win_of ?ws1 1)" "widgets_ok (win_of ?ws1 1)"
    "focus_ok (win_of ?ws 2)" "widgets_ok (win_of ?ws 2)"
    "focus_ok (win_of ?ws 3)" "widgets_ok (win_of ?ws 3)"
    by (simp_all add: cursor_ok_def)
  have "advance (win_of ?ws 0) = win_of ?ws1 1" "advance (win_of ?ws1 1) = win_of ?ws 2"
    "advance (win_of ?ws 2) = win_of ?ws 3"
    by (simp_all add: example_eval)
  with ok have "snd (bind (go_to_next_input (win_of ?ws 0))
      (\<lambda>fw. bind (go_to_next_input fw) go_to_next_input)) = Inr (win_of ?ws 3)"
    by (simp add: snd_bind moves_ok)
  moreover have "\<forall>j. 3 - 1 \<le> j \<and> j < 4 \<longrightarrow> is_dummy (input_at (win_of ?ws 3) j)"
  proof (intro allI impI)
    fix j :: int assume "3 - 1 \<le> j \<and> j < 4"
    then have "j = 2 \<or> j = 3" by auto
    then show "is_dummy (input_at (win_of ?ws 3) j)" by auto
  qed
  ultimately show ?thesis
    using go_to_previous_input_index_error [OF ok(7,8)] by simp
qed

text \<open>
  C23.  Moving to the next input and back, from a focused input that is not a dummy
  to the next one that is not a dummy, at index \<open>k\<close>: both moves succeed, and the
  focus ends at the larger of the old index and \<open>k - 2\<close>.  So the round trip
  restores the focus exactly when at most one dummy lies between the two inputs.
\<close>

theorem next_then_previous_index:
  assumes "focus_ok fw" and "widgets_ok fw"
    and "current_input fw < int (length (inputs fw)) - 1"
    and "\<not> is_dummy (input_at fw (current_input fw))"
    and "\<not> is_dummy (input_at fw (next_focus (dummies (inputs fw)) (current_input fw)))"
  shows "\<exists>fw'. snd (bind (go_to_next_input fw) go_to_previous_input) = Inr fw' \<and>
     current_input fw' =
       max (current_input fw) (next_focus (dummies (inputs fw)) (current_input fw) - 2)"
proof -
  let ?c = "current_input fw" and ?ds = "dummies (inputs fw)" and ?A = "advance fw"
  let ?k = "next_focus ?ds ?c"
  from assms(1,3) have c: "0 \<le> ?c" "?c < int (length ?ds) - 1"
    by (auto simp: focus_ok_def cursor_ok_def)
  then have k: "?c < ?k" "?k < int (length ?ds)"
    using next_focus_range [of ?c ?ds] by simp_all
  from c k assms(4,5) have nd: "\<not> ?ds ! nat ?c" "\<not> ?ds ! nat ?k" by (simp_all add: input_at_def)
  have m: "skip_fwd ?ds (?k - 1) = (if ?k = ?c + 1 then 0 else 1)"
  proof (cases "?k = ?c + 1")
    case True
    with c nd show ?thesis by (simp add: skip_fwd_0)
  next
    case False
    with k have "?c < ?k - 1" "?k - 1 < ?k" by simp_all
    then have "?ds ! nat (?k - 1)" by (rule next_focus_between [OF c])
    with c k nd False show ?thesis by (simp add: skip_fwd_1)
  qed
  from k c have "inputs ?A \<noteq> []" "0 < current_input ?A"
    by (auto simp: advance_current simp flip: length_0_conv)
  moreover from m k c have "skip_fwd (dummies (inputs ?A)) (current_input ?A - 1) \<le> current_input ?A - 1"
    "current_input ?A - 1 + skip_fwd (dummies (inputs ?A)) (current_input ?A - 1)
       < int (length (inputs ?A))"
    by (auto simp: advance_current)
  ultimately obtain fw' where "retreat ?A = Inr fw'"
    "current_input fw' = current_input ?A - 1 - skip_fwd (dummies (inputs ?A)) (current_input ?A - 1)"
    using retreat_moves [of ?A] by blast
  with m k assms(1,2) show ?thesis
    by (auto simp: snd_bind moves_ok advance_focus_ok advance_current)
qed

theorem next_then_previous_index_witness:
  "\<exists>fw'. snd (bind (go_to_next_input
       (win_of [text_input 0 [], dummy_input 1, dummy_input 2, text_input 3 []] 0))
       go_to_previous_input) = Inr fw' \<and> current_input fw' = 1"
proof -
  let ?W = "win_of [text_input 0 [], dummy_input 1, dummy_input 2, text_input 3 []] 0"
  have "next_focus (dummies (inputs ?W)) 0 = 3" by (simp add: example_eval)
  with next_then_previous_index [of ?W] show ?thesis by (simp add: cursor_ok_def)
qed

text \<open>
  C24.  When the input just before the focus is not a dummy, \<^verbatim>\<open>go_to_previous_input\<close>
  succeeds and puts the focus where the specification \<open>prev_focus\<close> puts it.
\<close>

theorem go_to_previous_input_meets_spec:
  assumes "focus_ok fw" and "widgets_ok fw" and "0 < current_input fw"
    and "\<not> is_dummy (input_at fw (current_input fw - 1))"
  shows "\<exists>fw'. snd (go_to_previous_input fw) = Inr fw' \<and>
     current_input fw' = prev_focus (dummies (inputs fw)) (current_input fw)"
proof -
  let ?c = "current_input fw" and ?ds = "dummies (inputs fw)"
  from assms(1,3) have ne: "inputs fw \<noteq> []" by (auto simp: focus_ok_def cursor_ok_def)
  with assms(1) have c: "?c < int (length ?ds)" using focus_ok_range [of fw] by simp
  with assms(3,4) have nd: "\<not> ?ds ! nat (?c - 1)" by (simp add: input_at_def)
  with assms(3) c have "skip_fwd ?ds (?c - 1) = 0" "prev_focus ?ds ?c = ?c - 1"
    by (simp_all add: skip_fwd_0 prev_focus_adjacent)
  with retreat_moves [of fw] ne assms(1-3) c show ?thesis by (simp add: moves_ok)
qed

theorem go_to_previous_input_meets_spec_witness:
  "\<exists>fw'. snd (go_to_previous_input (win_of [text_input 0 [], text_input 1 []] 1)) = Inr fw' \<and>
     current_input fw' = prev_focus (dummies (inputs (win_of [text_input 0 [], text_input 1 []] 1))) 1"
  using go_to_previous_input_meets_spec [of "win_of [text_input 0 [], text_input 1 []] 1"]
  by (simp add: cursor_ok_def)

section \<open>Properties of the scans\<close>

text \<open>
  C20.  The two loops end, and how soon: started at an index \<open>c\<close> inside the list,
  the loop of \<^verbatim>\<open>go_to_next_input\<close> ends after \<open>j\<close> rounds without raising, where
  \<open>c + j\<close> is still inside the list, the \<open>j\<close> inputs it passed are dummies, and
  the input it stops at is not a dummy unless it is the last; the loop of
  \<^verbatim>\<open>go_to_previous_input\<close> ends after at most \<open>c\<close> rounds, having passed dummies
  only, and it raises \<^verbatim>\<open>IndexError\<close> only when all inputs from \<open>c\<close> on are dummies
  and there are fewer of them than \<open>c\<close>.
\<close>

theorem scans_terminate:
  assumes "0 \<le> c" and "c < int (length inps)"
  shows "(\<exists>j. next_jump inps c 0 = Inr j \<and> 0 \<le> j \<and> c + j < int (length inps) \<and>
       (\<forall>i. c \<le> i \<and> i < c + j \<longrightarrow> is_dummy (e_input (inps ! nat i))) \<and>
       (c + j < int (length inps) - 1 \<longrightarrow> \<not> is_dummy (e_input (inps ! nat (c + j))))) \<and>
    (case prev_jump inps c 0 of
       Inr j \<Rightarrow> 0 \<le> j \<and> j \<le> c \<and>
         (\<forall>i. c \<le> i \<and> i < c + j \<longrightarrow> is_dummy (e_input (inps ! nat i)))
     | Inl e \<Rightarrow> e = IndexError \<and> int (length inps) - c < c \<and>
         (\<forall>i. c \<le> i \<and> i < int (length inps) \<longrightarrow> is_dummy (e_input (inps ! nat i))))"
proof -
  let ?ds = "dummies inps" and ?m = "skip_fwd (dummies inps) c"
  have m: "0 \<le> ?m" "c + ?m \<le> int (length inps)"
    using assms skip_fwd_le [of c ?ds] by (simp_all add: skip_fwd_nonneg)
  have passed: "is_dummy (e_input (inps ! nat i))" if "c \<le> i" "i < c + ?m" for i
    using that assms m skip_fwd_all [of c i ?ds] nth_dummies [of "nat i" inps] by simp
  have stop: "\<not> is_dummy (e_input (inps ! nat (c + ?m)))" if "c + ?m < int (length inps)"
    using that assms m skip_fwd_stop [of c ?ds] nth_dummies [of "nat (c + ?m)" inps] by simp
  let ?j = "min ?m (int (length inps) - 1 - c)"
  from assms have "next_jump inps c 0 = Inr ?j" by (simp add: next_jump_eq)
  moreover from assms m have "0 \<le> ?j" "c + ?j < int (length inps)" by simp_all
  moreover have "is_dummy (e_input (inps ! nat i))" if "c \<le> i" "i < c + ?j" for i
    using that by (intro passed) simp_all
  moreover have "\<not> is_dummy (e_input (inps ! nat (c + ?j)))" if "c + ?j < int (length inps) - 1"
    using that stop by (simp add: min_def split: if_splits)
  ultimately have fwd: "\<exists>j. next_jump inps c 0 = Inr j \<and> 0 \<le> j \<and> c + j < int (length inps) \<and>
      (\<forall>i. c \<le> i \<and> i < c + j \<longrightarrow> is_dummy (e_input (inps ! nat i))) \<and>
      (c + j < int (length inps) - 1 \<longrightarrow> \<not> is_dummy (e_input (inps ! nat (c + j))))"
    by blast
  have "prev_jump inps c 0 =
     (if c \<le> 0 then Inr 0
      else if ?m < c then (if int (length inps) \<le> c + ?m then Inl IndexError else Inr ?m)
      else Inr c)"
    by (simp add: prev_jump_eq)
  with assms m passed fwd show ?thesis by (auto split: sum.splits)
qed

theorem scans_terminate_witness:
  "next_jump (map entry_of [text_input 0 [], dummy_input 1, dummy_input 2, text_input 3 []]) 1 0 =
     Inr 2 \<and>
   prev_jump (map entry_of [text_input 0 [], dummy_input 1, dummy_input 2, text_input 3 []]) 1 0 =
     Inr 1 \<and>
   prev_jump (map entry_of [text_input 0 [], text_input 1 [], text_input 2 [], dummy_input 3,
       dummy_input 4]) 3 0 = Inl IndexError"
proof -
  let ?a = "map entry_of [text_input 0 [], dummy_input 1, dummy_input 2, text_input 3 []]"
  let ?b = "map entry_of [text_input 0 [], text_input 1 [], text_input 2 [], dummy_input 3,
    dummy_input 4]"
  have "next_jump ?a 1 0 = Inr 2" "prev_jump ?a 1 0 = Inr 1" "prev_jump ?b 3 0 = Inl IndexError"
    by (simp_all add: next_jump_eq prev_jump_eq example_eval skip_fwd_def)
  with scans_terminate [of 1 ?a] show ?thesis by simp
qed

end
