(* ===== verification/FormWin_Fields.thy ===== *)
theory FormWin_Fields
  imports FormWin_Navigation
begin

text \<open>
  The form window and the fields of the form: what \<^verbatim>\<open>FormWin.__init__\<close> builds
  from the fields, what a key passed by \<^verbatim>\<open>FormWin.on_input\<close> changes, and what
  \<^verbatim>\<open>FormWin.reply\<close> writes back into the fields.

  The loops of the constructor and of \<^verbatim>\<open>reply\<close> are related to closed
  specifications: \<open>built\<close> makes one entry per visible field with \<open>make_entry\<close>,
  \<open>committed\<close> folds \<open>commit_entry\<close> over the inputs, and \<open>replied_field\<close> says
  field by field what the committed form holds.
\<close>

section \<open>Specification of the construction\<close>

text \<open>
  A type is known when \<^verbatim>\<open>input_classes\<close> has it; \<open>class_of\<close> is the class chosen
  for a type.  \<open>norm_field\<close> is what the constructor does to a field (the value of
  a field of unknown type becomes the name of the type), \<open>normalise\<close> the form it
  leaves, \<open>visible\<close> the fields that get an input, and \<open>uniterable\<close> the fields on
  which the constructor of a multiple-choice list raises.
\<close>

definition known_type :: "string \<Rightarrow> bool" where
  "known_type t \<longleftrightarrow> input_classes t \<noteq> None"

definition class_of :: "string \<Rightarrow> input_class" where
  "class_of t = (case input_classes t of Some c \<Rightarrow> c | None \<Rightarrow> CTextSingleWin)"

definition norm_field :: "field \<Rightarrow> field" where
  "norm_field f =
     (if f_type f = ''hidden'' \<or> known_type (f_type f) then f
      else setValue (PStr (f_type f)) f)"

definition normalise :: "form \<Rightarrow> form" where
  "normalise fm = fm\<lparr>fm_fields := map (\<lambda>nf. (fst nf, norm_field (snd nf))) (fm_fields fm)\<rparr>"

definition shown :: "form \<Rightarrow> field_ref \<Rightarrow> bool" where
  "shown fm r \<longleftrightarrow> f_type (field_at fm r) \<noteq> ''hidden''"

definition visible :: "form \<Rightarrow> field_ref list" where
  "visible fm = filter (shown fm) [0 ..< length (fm_fields fm)]"

definition make_entry :: "form \<Rightarrow> field_ref \<Rightarrow> error + entry" where
  "make_entry fm r =
     (let field = norm_field (field_at fm r) in
      map_sum id
        (\<lambda>inp. \<lparr>e_label = (if f_type field = ''fixed'' then getValue field
                             else PStr (f_label field)),
                 e_instructions = f_instructions field, e_input = inp\<rparr>)
        (new_input (class_of (f_type field)) r field))"

definition built :: "form \<Rightarrow> error + form_win" where
  "built fm =
     map_sum id
       (\<lambda>es. \<lparr>fw_form = normalise fm, current_input = 0, inputs = es,
               fw_height = 0, fw_width = 0\<rparr>)
       (io_map (make_entry fm) (visible fm))"

definition uniterable :: "field \<Rightarrow> bool" where
  "uniterable f \<longleftrightarrow>
     f_type f = ''list-multi'' \<and> f_options f \<noteq> [] \<and>
     (case f_value f of PNone \<Rightarrow> True | PBool b \<Rightarrow> True | PStr s \<Rightarrow> False | PList xs \<Rightarrow> False)"

text \<open>
  The invariant of a form window made for the form \<open>fm\<close>: the focus index is in
  range, the inputs satisfy their invariants, and they are the inputs of the
  visible fields of \<open>fm\<close>, dummies exactly for the fixed ones.
\<close>

definition form_win_inv :: "form \<Rightarrow> form_win \<Rightarrow> bool" where
  "form_win_inv fm fw \<longleftrightarrow>
     focus_ok fw \<and> inputs_inv fw \<and> refs fw = visible fm \<and>
     dummies (inputs fw) = map (\<lambda>r. f_type (field_at fm r) = ''fixed'') (visible fm)"

section \<open>Invariants and the specification of reply\<close>

text \<open>
  \<open>put_input\<close> replaces the input at one position.  An entry
  \<open>can_reply\<close> when it is a dummy or its answer exists; \<open>commit_entry\<close> writes the
  answer of one entry into the form.
\<close>

definition put_input :: "nat \<Rightarrow> input \<Rightarrow> form_win \<Rightarrow> form_win" where
  "put_input k w fw = fw\<lparr>inputs := (inputs fw)[k := (inputs fw ! k)\<lparr>e_input := w\<rparr>]\<rparr>"

definition can_reply :: "entry \<Rightarrow> bool" where
  "can_reply inp \<longleftrightarrow>
     (case answer (e_input inp) of Inr v \<Rightarrow> True | Inl e \<Rightarrow> is_dummy (e_input inp))"

definition commit_entry :: "entry \<Rightarrow> form \<Rightarrow> form" where
  "commit_entry inp fm =
     (case answer (e_input inp) of
        Inl e \<Rightarrow> fm
      | Inr v \<Rightarrow> upd_field (fld (e_input inp)) (answered (e_input inp) v) fm)"

definition committed :: "form_win \<Rightarrow> form" where
  "committed fw = (fold commit_entry (inputs fw) (fw_form fw))\<lparr>fm_title := [], fm_instructions := []\<rparr>"

definition replied_field :: "form_win \<Rightarrow> field_ref \<Rightarrow> field" where
  "replied_field fw r =
     (case find (\<lambda>inp. fld (e_input inp) = r) (inputs fw) of
        None \<Rightarrow> field_at (fw_form fw) r
      | Some inp \<Rightarrow>
          (case answer (e_input inp) of
             Inl e \<Rightarrow> field_at (fw_form fw) r
           | Inr v \<Rightarrow> answered (e_input inp) v (field_at (fw_form fw) r)))"

section \<open>Example forms\<close>

text \<open>
  A form with a hidden field, a fixed field and a text field, the form window built
  from it, and the form after a reply.
\<close>

definition mk_field :: "string \<Rightarrow> pyval \<Rightarrow> field" where
  "mk_field t v = \<lparr>f_type = t, f_label = ''label'', f_instructions = [], f_value = v, f_options = []\<rparr>"

definition example_form :: form where
  "example_form =
     \<lparr>fm_title = ''Room'', fm_instructions = ''Fill in'',
      fm_fields = [(''token'', mk_field ''hidden'' (PStr ''secret'')),
                   (''note'', mk_field ''fixed'' (PStr ''Section'')),
                   (''nick'', mk_field ''text-single'' (PStr ''hello''))]\<rparr>"

definition example_win :: form_win where
  "example_win =
     \<lparr>fw_form = example_form, current_input = 0,
      inputs = [\<lparr>e_label = PStr ''Section'', e_instructions = [], e_input = dummy_input 1\<rparr>,
                \<lparr>e_label = PStr ''label'', e_instructions = [],
                 e_input = text_input 2 ''hello''\<rparr>],
      fw_height = 0, fw_width = 0\<rparr>"

definition example_reply :: form where
  "example_reply =
     \<lparr>fm_title = [], fm_instructions = [],
      fm_fields = [(''token'', mk_field ''hidden'' (PStr ''secret'')),
                   (''note'', mk_field ''fixed'' (PStr ''Section'')),
                   (''nick'', (mk_field ''text-single'' (PStr ''hello''))\<lparr>f_label := []\<rparr>)]\<rparr>"

section \<open>Lemmas: the loop of reply\<close>

lemma answer_dummy [simp]: "is_dummy w \<Longrightarrow> answer w = Inl NotImplementedError"
  by (cases w) simp_all

lemma answer_error: "answer w = Inl e \<Longrightarrow> \<not> is_dummy w \<Longrightarrow> e = IndexError"
  by (cases w) (auto simp: map_sum_def split: sum.splits dest: py_get_error)

lemma reply_entry_eq:
  "reply_entry inp fm =
     (if can_reply inp then ret (commit_entry inp fm) else raise IndexError)"
  by (cases "answer (e_input inp)")
    (auto simp: reply_entry_def can_reply_def commit_entry_def reply_refines dest: answer_error)

lemma io_fold_reply_entry:
  "io_fold reply_entry inps fm =
     (if list_all can_reply inps then ret (fold commit_entry inps fm) else raise IndexError)"
  by (induction inps arbitrary: fm) (simp_all add: reply_entry_eq)

lemma FormWin_reply_eq:
  "FormWin_reply fw =
     (if list_all can_reply (inputs fw) then ret (fw\<lparr>fw_form := committed fw\<rparr>)
      else raise IndexError)"
  by (simp add: FormWin_reply_def io_fold_reply_entry committed_def)

lemma renderable_can_reply: "renderable (e_input inp) \<Longrightarrow> can_reply inp"
  by (cases "is_dummy (e_input inp)")
    (auto simp: can_reply_def dest: answer_renderable split: sum.splits)

lemma widgets_ok_can_reply: "widgets_ok fw \<Longrightarrow> list_all can_reply (inputs fw)"
  by (simp add: widgets_ok_def list_all_iff renderable_can_reply)

lemma commit_entry_frame [simp]:
  "length (fm_fields (commit_entry inp fm)) = length (fm_fields fm)"
  "field_names (commit_entry inp fm) = field_names fm"
  "valid_ref (commit_entry inp fm) r = valid_ref fm r"
  "fm_title (commit_entry inp fm) = fm_title fm"
  "fm_instructions (commit_entry inp fm) = fm_instructions fm"
  by (simp_all add: commit_entry_def split: sum.splits)

lemma commit_entry_other:
  "r \<noteq> fld (e_input inp) \<Longrightarrow> field_at (commit_entry inp fm) r = field_at fm r"
  by (simp add: commit_entry_def split: sum.splits)

lemma fold_commit_frame [simp]:
  "length (fm_fields (fold commit_entry inps fm)) = length (fm_fields fm)"
  "field_names (fold commit_entry inps fm) = field_names fm"
  "valid_ref (fold commit_entry inps fm) r = valid_ref fm r"
  "fm_title (fold commit_entry inps fm) = fm_title fm"
  "fm_instructions (fold commit_entry inps fm) = fm_instructions fm"
  by (induction inps arbitrary: fm) simp_all

lemma fold_commit_other:
  "r \<notin> set (map (fld \<circ> e_input) inps) \<Longrightarrow> field_at (fold commit_entry inps fm) r = field_at fm r"
  by (induction inps arbitrary: fm) (simp_all add: commit_entry_other)

lemma fold_commit_field:
  assumes "distinct (map (fld \<circ> e_input) inps)" and "inp \<in> set inps"
    and "valid_ref fm (fld (e_input inp))"
  shows "field_at (fold commit_entry inps fm) (fld (e_input inp)) =
     field_at (commit_entry inp fm) (fld (e_input inp))"
  using assms
proof (induction inps arbitrary: fm)
  case Nil
  then show ?case by simp
next
  case (Cons a inps)
  show ?case
  proof (cases "inp = a")
    case True
    with Cons.prems(1) show ?thesis by (simp add: fold_commit_other)
  next
    case False
    with Cons.prems have "inp \<in> set inps" "fld (e_input inp) \<noteq> fld (e_input a)"
      by (auto simp: image_iff)
    with Cons show ?thesis by (simp add: commit_entry_other commit_entry_def split: sum.splits)
  qed
qed

section \<open>Lemmas: the loop of the constructor\<close>

lemma f_type_norm_field [simp]: "f_type (norm_field f) = f_type f"
  by (simp add: norm_field_def form_defs)

lemma upd_field_same: "g (field_at fm r) = field_at fm r \<Longrightarrow> upd_field r g fm = fm"
  by (simp add: upd_field_def field_at_def)

lemma upd_field_at_cong:
  "g (field_at fm r) = h (field_at fm r) \<Longrightarrow> upd_field r g fm = upd_field r h fm"
  by (simp add: upd_field_def field_at_def)

lemma io_map_cong: "(\<And>x. x \<in> set xs \<Longrightarrow> f x = g x) \<Longrightarrow> io_map f xs = io_map g xs"
  by (induction xs) (simp_all cong: sum.case_cong)

lemma init_field_eq:
  assumes "valid_ref fm r"
  shows "init_field r (fm, inps) =
     (if shown fm r then
        bind (lift (make_entry fm r)) (\<lambda>e. ret (upd_field r norm_field fm, inps @ [e]))
      else ret (upd_field r norm_field fm, inps))"
proof (cases "shown fm r")
  case False
  then show ?thesis
    by (simp add: init_field_def shown_def norm_field_def upd_field_same)
next
  case True
  show ?thesis
  proof (cases "input_classes (f_type (field_at fm r))")
    case None
    with True assms show ?thesis
      by (cases "new_input CTextSingleWin r (norm_field (field_at fm r))")
        (auto simp: init_field_def shown_def make_entry_def class_of_def norm_field_def
          known_type_def Let_def form_defs intro!: upd_field_at_cong)
  next
    case (Some c)
    with True assms show ?thesis
      by (cases "new_input c r (field_at fm r)")
        (auto simp: init_field_def shown_def make_entry_def class_of_def norm_field_def
          known_type_def Let_def form_defs upd_field_same)
  qed
qed

lemma make_entry_upd_other:
  "q \<noteq> r \<Longrightarrow> make_entry (upd_field r g fm) q = make_entry fm q"
  by (simp add: make_entry_def)

lemma shown_upd_field:
  "shown (upd_field r norm_field fm) q = shown fm q"
  by (cases "q = r"; cases "valid_ref fm r")
    (simp_all add: shown_def upd_field_invalid)

lemma io_fold_init_field:
  assumes "distinct rs" and "list_all (valid_ref fm) rs"
  shows "io_fold init_field rs (fm, inps) =
     (case io_map (make_entry fm) (filter (shown fm) rs) of
        Inl e \<Rightarrow> raise e
      | Inr es \<Rightarrow> ret (fold (\<lambda>r. upd_field r norm_field) rs fm, inps @ es))"
  using assms
proof (induction rs arbitrary: fm inps)
  case Nil
  then show ?case by simp
next
  case (Cons r rs)
  let ?fm = "upd_field r norm_field fm"
  from Cons.prems have r: "valid_ref fm r" "r \<notin> set rs" by simp_all
  from Cons.prems have "distinct rs" "list_all (valid_ref ?fm) rs"
    by (simp_all add: list_all_iff)
  note IH = Cons.IH [OF this]
  have "shown ?fm = shown fm" by (rule ext) (simp add: shown_upd_field)
  moreover from r have "io_map (make_entry ?fm) xs = io_map (make_entry fm) xs"
    if "set xs \<subseteq> set rs" for xs
    using that by (intro io_map_cong make_entry_upd_other) auto
  ultimately have same: "io_map (make_entry ?fm) (filter (shown ?fm) rs) =
      io_map (make_entry fm) (filter (shown fm) rs)"
    by simp
  show ?case
  proof (cases "shown fm r")
    case False
    with r show ?thesis by (simp add: init_field_eq IH same split: sum.splits)
  next
    case True
    with r show ?thesis
      by (cases "make_entry fm r")
        (auto simp: init_field_eq IH same raise_def split: sum.splits)
  qed
qed

lemma nth_upd_field:
  "i < length (fm_fields fm) \<Longrightarrow>
   fm_fields (upd_field r g fm) ! i =
     (if i = r then (fst (fm_fields fm ! i), g (snd (fm_fields fm ! i))) else fm_fields fm ! i)"
  by (simp add: upd_field_def nth_list_update)

lemma fold_upd_field_nth:
  assumes "distinct rs" and "i < length (fm_fields fm)"
  shows "fm_fields (fold (\<lambda>r. upd_field r g) rs fm) ! i =
     (if i \<in> set rs then (fst (fm_fields fm ! i), g (snd (fm_fields fm ! i)))
      else fm_fields fm ! i)"
  using assms
proof (induction rs arbitrary: fm)
  case Nil
  then show ?case by simp
next
  case (Cons r rs)
  from Cons.prems have "distinct rs" "i < length (fm_fields (upd_field r g fm))" by simp_all
  from Cons.IH [OF this] Cons.prems show ?case by (auto simp: nth_upd_field)
qed

lemma fold_upd_field_frame [simp]:
  "length (fm_fields (fold (\<lambda>r. upd_field r g) rs fm)) = length (fm_fields fm)"
  "fm_title (fold (\<lambda>r. upd_field r g) rs fm) = fm_title fm"
  "fm_instructions (fold (\<lambda>r. upd_field r g) rs fm) = fm_instructions fm"
  by (induction rs arbitrary: fm) simp_all

lemma fold_upd_field_all:
  "fold (\<lambda>r. upd_field r norm_field) [0 ..< length (fm_fields fm)] fm = normalise fm"
proof -
  let ?fm = "fold (\<lambda>r. upd_field r norm_field) [0 ..< length (fm_fields fm)] fm"
  have "fm_fields ?fm = fm_fields (normalise fm)"
    by (rule nth_equalityI) (simp_all add: fold_upd_field_nth normalise_def)
  then show ?thesis by (intro form.equality) (simp_all add: normalise_def)
qed

lemma FormWin_init_eq:
  "FormWin_init fm h wd y x = ([FormCall (Newwin h wd y x)], built fm)"
proof -
  have "list_all (valid_ref fm) [0 ..< length (fm_fields fm)]"
    by (simp add: list_all_iff valid_ref_def)
  then have "io_fold init_field [0 ..< length (fm_fields fm)] (fm, []) =
     (case io_map (make_entry fm) (visible fm) of
        Inl e \<Rightarrow> raise e | Inr es \<Rightarrow> ret (normalise fm, es))"
    by (simp add: io_fold_init_field visible_def fold_upd_field_all split: sum.splits)
  then show ?thesis
    by (cases "io_map (make_entry fm) (visible fm)")
      (simp_all add: FormWin_init_def built_def form_defs emit_def raise_def ret_def)
qed

lemma FormWin_init_result [simp]: "snd (FormWin_init fm h wd y x) = built fm"
  by (simp add: FormWin_init_eq)

section \<open>Lemmas: the inputs that are built\<close>

lemma class_of_simps [simp]:
  "class_of ''boolean'' = CBooleanWin" "class_of ''fixed'' = CDummyInput"
  "class_of ''jid-single'' = CTextSingleWin" "class_of ''list-multi'' = CListMultiWin"
  "class_of ''list-single'' = CListSingleWin" "class_of ''text-private'' = CTextPrivateWin"
  "class_of ''text-single'' = CTextSingleWin"
  by (simp_all add: class_of_def input_classes_def)

lemma known_type_iff:
  "known_type t \<longleftrightarrow> t \<in> {''boolean'', ''fixed'', ''jid-single'', ''list-multi'', ''list-single'',
     ''text-private'', ''text-single''}"
  by (auto simp: known_type_def input_classes_def)

lemma class_of_unknown: "\<not> known_type t \<Longrightarrow> class_of t = CTextSingleWin"
  by (simp add: known_type_def class_of_def)

lemma class_of_dummy_iff: "class_of t = CDummyInput \<longleftrightarrow> t = ''fixed''"
  by (cases "known_type t") (auto simp: known_type_iff class_of_unknown)

lemma class_of_multi_iff: "class_of t = CListMultiWin \<longleftrightarrow> t = ''list-multi''"
  by (cases "known_type t") (auto simp: known_type_iff class_of_unknown)

lemma new_input_Inr:
  assumes "new_input c r f = Inr w"
  shows "fld w = r" and "color_of w = unfocused" and "input_inv w"
    and "is_dummy w \<longleftrightarrow> c = CDummyInput"
proof -
  note defs = form_defs TextSingleWin_init_def ListSingleWin_init_def ListMultiWin_init_eq Let_def
  from assms show "fld w = r" by (cases c) (auto simp: defs split: if_splits)
  from assms show "color_of w = unfocused" by (cases c) (auto simp: defs split: if_splits)
  from assms show "is_dummy w \<longleftrightarrow> c = CDummyInput" by (cases c) (auto simp: defs split: if_splits)
  from assms ListSingleWin_init_inv [of r f] ListMultiWin_init_inv [of r f]
  show "input_inv w" by (cases c) (auto simp: map_sum_def split: sum.splits)
qed

lemma new_input_fails_iff:
  "(\<exists>e. new_input c r f = Inl e) \<longleftrightarrow>
     c = CListMultiWin \<and> f_options f \<noteq> [] \<and> (f_value f = PNone \<or> (\<exists>b. f_value f = PBool b))"
  by (cases c) (auto simp: ListMultiWin_init_eq)

lemma new_input_error: "new_input c r f = Inl e \<Longrightarrow> e = TypeError"
  by (cases c) (auto simp: ListMultiWin_init_eq split: if_splits)

lemma make_entry_Inr:
  assumes "make_entry fm r = Inr e"
  shows "fld (e_input e) = r" and "color_of (e_input e) = unfocused" and "input_inv (e_input e)"
    and "is_dummy (e_input e) \<longleftrightarrow> f_type (field_at fm r) = ''fixed''"
  using assms
  by (auto simp: make_entry_def Let_def map_sum_def class_of_dummy_iff
      split: sum.splits dest: new_input_Inr)

lemma norm_field_attrs [simp]:
  "f_options (norm_field f) = f_options f" "f_label (norm_field f) = f_label f"
  "f_instructions (norm_field f) = f_instructions f"
  "known_type (f_type f) \<Longrightarrow> norm_field f = f"
  by (simp_all add: norm_field_def form_defs)

lemma make_entry_fails_iff:
  "(\<exists>e. make_entry fm r = Inl e) \<longleftrightarrow> uniterable (field_at fm r)"
proof -
  let ?f = "field_at fm r"
  have "(\<exists>e. make_entry fm r = Inl e) \<longleftrightarrow>
      (\<exists>e. new_input (class_of (f_type ?f)) r (norm_field ?f) = Inl e)"
    by (auto simp: make_entry_def Let_def map_sum_def split: sum.splits)
  also have "\<dots> \<longleftrightarrow> f_type ?f = ''list-multi'' \<and> f_options ?f \<noteq> [] \<and>
      (f_value (norm_field ?f) = PNone \<or> (\<exists>b. f_value (norm_field ?f) = PBool b))"
    by (simp add: new_input_fails_iff class_of_multi_iff)
  also have "\<dots> \<longleftrightarrow> uniterable ?f"
    by (auto simp: uniterable_def known_type_iff split: pyval.splits)
  finally show ?thesis .
qed

lemma io_map_fails_iff:
  "(\<exists>e. io_map f xs = Inl e) \<longleftrightarrow> (\<exists>x \<in> set xs. \<exists>e. f x = Inl e)"
  by (induction xs) (auto split: sum.splits)

lemma io_map_error:
  "io_map f xs = Inl e \<Longrightarrow> \<exists>x \<in> set xs. f x = Inl e"
  by (induction xs) (auto split: sum.splits)

lemma make_entry_error: "make_entry fm r = Inl e \<Longrightarrow> e = TypeError"
  by (auto simp: make_entry_def Let_def map_sum_def split: sum.splits dest: new_input_error)

lemma built_fails_iff:
  "built fm = Inl e \<longleftrightarrow> e = TypeError \<and> (\<exists>r \<in> set (visible fm). uniterable (field_at fm r))"
proof
  assume "built fm = Inl e"
  then have "io_map (make_entry fm) (visible fm) = Inl e"
    by (auto simp: built_def map_sum_def split: sum.splits)
  then obtain r where "r \<in> set (visible fm)" "make_entry fm r = Inl e"
    by (auto dest: io_map_error)
  then show "e = TypeError \<and> (\<exists>r \<in> set (visible fm). uniterable (field_at fm r))"
    using make_entry_fails_iff [of fm r] by (auto dest: make_entry_error)
next
  assume "e = TypeError \<and> (\<exists>r \<in> set (visible fm). uniterable (field_at fm r))"
  then have "\<exists>e. io_map (make_entry fm) (visible fm) = Inl e" and e: "e = TypeError"
    by (auto simp: io_map_fails_iff make_entry_fails_iff)
  then obtain e' where e': "io_map (make_entry fm) (visible fm) = Inl e'" by blast
  then have "e' = TypeError" by (auto dest!: io_map_error make_entry_error)
  with e e' show "built fm = Inl e" by (simp add: built_def)
qed

lemma built_Inr:
  assumes "built fm = Inr fw"
  shows "refs fw = visible fm" and "current_input fw = 0" and "fw_form fw = normalise fm"
    and "inputs_inv fw" and "focus_ok fw" and "refs_ok fw"
    and "dummies (inputs fw) = map (\<lambda>r. f_type (field_at fm r) = ''fixed'') (visible fm)"
    and "list_all (\<lambda>inp. color_of (e_input inp) = unfocused) (inputs fw)"
proof -
  from assms have es: "io_map (make_entry fm) (visible fm) = Inr (inputs fw)"
    and fw: "current_input fw = 0" "fw_form fw = normalise fm"
    by (auto simp: built_def map_sum_def split: sum.splits)
  then have len: "length (inputs fw) = length (visible fm)"
    and nth: "\<And>i. i < length (visible fm) \<Longrightarrow> make_entry fm (visible fm ! i) = Inr (inputs fw ! i)"
    by (simp_all add: io_map_Inr_length io_map_Inr_nth)
  show "current_input fw = 0" "fw_form fw = normalise fm" by fact+
  show r: "refs fw = visible fm"
    using len by (intro nth_equalityI) (auto simp: refs_def dest: nth make_entry_Inr(1))
  show "inputs_inv fw"
    using len by (auto simp: inputs_inv_def list_all_length dest: nth make_entry_Inr(3))
  show "list_all (\<lambda>inp. color_of (e_input inp) = unfocused) (inputs fw)"
    using len by (auto simp: list_all_length dest: nth make_entry_Inr(2))
  show "focus_ok fw" by (simp add: focus_ok_def fw)
  have "valid_ref (normalise fm) q" if "q \<in> set (visible fm)" for q
    using that by (simp add: visible_def valid_ref_def normalise_def)
  then show "refs_ok fw" by (simp add: refs_ok_def r fw list_all_iff visible_def)
  show "dummies (inputs fw) = map (\<lambda>r. f_type (field_at fm r) = ''fixed'') (visible fm)"
    using len by (intro nth_equalityI) (auto dest!: nth dest: make_entry_Inr(4))
qed

section \<open>Lemmas: replacing an input, and the fields after a reply\<close>

lemma call_input_Inr:
  assumes "0 \<le> i" and "i < int (length (inputs fw))"
  shows "snd (call_input i m fw) = Inr fw' \<longleftrightarrow>
     (\<exists>w. snd (m (input_at fw i)) = Inr w \<and> fw' = put_input (nat i) w fw)"
  using assms by (auto simp: call_input_in_range bind_Inr_iff put_input_def)

lemma put_input_frame [simp]:
  "fw_form (put_input k w fw) = fw_form fw" "current_input (put_input k w fw) = current_input fw"
  "length (inputs (put_input k w fw)) = length (inputs fw)"
  "focus_ok (put_input k w fw) = focus_ok fw"
  by (simp_all add: put_input_def focus_ok_def cursor_ok_def)

lemma put_input_nth:
  "i < length (inputs fw) \<Longrightarrow>
   e_input (inputs (put_input k w fw) ! i) = (if i = k then w else e_input (inputs fw ! i))"
  by (simp add: put_input_def nth_list_update)

lemma put_input_same_attrs:
  assumes "k < length (inputs fw)" and "fld w = fld (e_input (inputs fw ! k))"
    and "is_dummy w = is_dummy (e_input (inputs fw ! k))"
  shows "refs (put_input k w fw) = refs fw"
    and "dummies (inputs (put_input k w fw)) = dummies (inputs fw)"
  using assms by (auto simp: refs_def put_input_nth intro!: nth_equalityI split: if_splits)

lemma put_input_inputs_inv:
  "inputs_inv fw \<Longrightarrow> input_inv w \<Longrightarrow> inputs_inv (put_input k w fw)"
  by (cases "k < length (inputs fw)")
    (auto simp: inputs_inv_def list_all_length put_input_def list_update_beyond nth_list_update)

lemma find_ref:
  assumes "distinct (map (fld \<circ> e_input) inps)" and "inp \<in> set inps"
  shows "find (\<lambda>a. fld (e_input a) = fld (e_input inp)) inps = Some inp"
  using assms by (induction inps) (auto simp: image_iff)

lemma find_ref_None:
  "find (\<lambda>a. fld (e_input a) = r) inps = None \<longleftrightarrow> r \<notin> set (map (fld \<circ> e_input) inps)"
  by (auto simp: find_None_iff)

lemma committed_field:
  assumes "refs_ok fw"
  shows "field_at (committed fw) r = replied_field fw r"
proof (cases "find (\<lambda>inp. fld (e_input inp) = r) (inputs fw)")
  case None
  then have "r \<notin> set (map (fld \<circ> e_input) (inputs fw))" by (simp add: find_ref_None)
  with None show ?thesis by (simp add: committed_def replied_field_def fold_commit_other)
next
  case (Some inp)
  then have inp: "inp \<in> set (inputs fw)" "fld (e_input inp) = r"
    by (auto simp: find_Some_iff)
  with assms have "valid_ref (fw_form fw) r" "distinct (map (fld \<circ> e_input) (inputs fw))"
    by (auto simp: refs_ok_def refs_def list_all_iff)
  with inp have "field_at (fold commit_entry (inputs fw) (fw_form fw)) r =
      field_at (commit_entry inp (fw_form fw)) r"
    using fold_commit_field [of "inputs fw" inp "fw_form fw"] by simp
  with Some inp \<open>valid_ref (fw_form fw) r\<close> show ?thesis
    by (simp add: committed_def replied_field_def commit_entry_def split: sum.splits)
qed

lemma can_reply_iff:
  "can_reply inp \<longleftrightarrow>
     (\<forall>s. e_input inp = ListSingleWin s \<longrightarrow> index_ok (ls_options s) (ls_val_pos s))"
  using answer_succeeds_iff [of "e_input inp"]
  by (cases "is_dummy (e_input inp)") (auto simp: can_reply_def split: sum.splits)

section \<open>Lemmas: the example form\<close>

lemma visible_example: "visible example_form = [1, 2]"
  by (simp add: visible_def shown_def example_form_def mk_field_def field_at_def)

lemma field_names_update [simp]:
  "field_names (fm\<lparr>fm_title := s\<rparr>) = field_names fm"
  "field_names (fm\<lparr>fm_instructions := s\<rparr>) = field_names fm"
  by (simp_all add: field_names_def)

lemmas example_fields = example_form_def mk_field_def field_at_def norm_field_def known_type_iff
  form_defs

lemma make_entry_example:
  "make_entry example_form (Suc 0) =
     Inr \<lparr>e_label = PStr ''Section'', e_instructions = [], e_input = dummy_input 1\<rparr>"
  "make_entry example_form 2 =
     Inr \<lparr>e_label = PStr ''label'', e_instructions = [], e_input = text_input 2 ''hello''\<rparr>"
  by (simp_all add: make_entry_def example_fields TextSingleWin_init_def text_input_def
      dummy_input_def)

lemma normalise_example: "normalise example_form = example_form"
  by (simp add: normalise_def example_fields)

lemma built_example: "built example_form = Inr example_win"
  by (simp add: built_def visible_example make_entry_example normalise_example example_win_def)

lemma example_win_ok: "focus_ok example_win" "refs_ok example_win" "widgets_ok example_win"
  using built_Inr [OF built_example]
  by (simp_all add: widgets_ok_def example_win_def)

lemma committed_example: "committed example_win = example_reply"
  by (simp add: committed_def commit_entry_def answered_def upd_field_def example_win_def
      example_form_def example_reply_def text_input_def dummy_input_def mk_field_def)

lemma FormWin_on_input_cases:
  assumes "focus_ok fw" and "snd (FormWin_on_input ed k fw) = Inr fw'"
  obtains (none) "fw' = fw"
    | (some) w where "snd (do_command ed k (input_at fw (current_input fw))) = Inr w"
        "fw' = put_input (nat (current_input fw)) w fw"
        "nat (current_input fw) < length (inputs fw)"
proof (cases "inputs fw = []")
  case True
  with assms(2) none show ?thesis by (simp add: FormWin_on_input_def)
next
  case False
  with assms focus_ok_range [of fw] some show ?thesis
    by (auto simp: FormWin_on_input_def call_input_Inr)
qed

lemma FormWin_on_input_keeps:
  assumes "focus_ok fw" and "inputs_inv fw" and "snd (FormWin_on_input ed k fw) = Inr fw'"
  shows "focus_ok fw'" and "inputs_inv fw'" and "current_input fw' = current_input fw"
    and "fw_form fw' = fw_form fw" and "refs fw' = refs fw"
    and "dummies (inputs fw') = dummies (inputs fw)"
    and "fw_height fw' = fw_height fw" and "fw_width fw' = fw_width fw"
    and "\<forall>i < length (inputs fw). i \<noteq> nat (current_input fw) \<longrightarrow> inputs fw' ! i = inputs fw ! i"
    and "map (color_of \<circ> e_input) (inputs fw') = map (color_of \<circ> e_input) (inputs fw)"
proof -
  let ?c = "current_input fw"
  from assms(1,3) have "focus_ok fw' \<and> inputs_inv fw' \<and> current_input fw' = ?c \<and>
      fw_form fw' = fw_form fw \<and> refs fw' = refs fw \<and>
      dummies (inputs fw') = dummies (inputs fw) \<and>
      fw_height fw' = fw_height fw \<and> fw_width fw' = fw_width fw \<and>
      (\<forall>i < length (inputs fw). i \<noteq> nat ?c \<longrightarrow> inputs fw' ! i = inputs fw ! i) \<and>
      map (color_of \<circ> e_input) (inputs fw') = map (color_of \<circ> e_input) (inputs fw)"
  proof (cases rule: FormWin_on_input_cases)
    case none
    with assms(1,2) show ?thesis by simp
  next
    case (some w)
    from assms(2) some(3) have "input_inv (input_at fw ?c)"
      by (simp add: inputs_inv_def list_all_length input_at_def)
    with some(1) have "input_inv w" by (rule do_command_inv)
    moreover from some(3) do_command_attrs [OF some(1)]
    have "refs fw' = refs fw" "dummies (inputs fw') = dummies (inputs fw)"
      unfolding some(2) by (intro put_input_same_attrs; simp add: input_at_def)+
    moreover from some(3) do_command_attrs(2) [OF some(1)]
    have "map (color_of \<circ> e_input) (inputs fw') = map (color_of \<circ> e_input) (inputs fw)"
      unfolding some(2) by (intro nth_equalityI) (auto simp: put_input_nth input_at_def)
    ultimately show ?thesis
      using assms(1,2) by (simp add: some(2) put_input_inputs_inv) (simp add: put_input_def)
  qed
  then show "focus_ok fw'" and "inputs_inv fw'" and "current_input fw' = current_input fw"
    and "fw_form fw' = fw_form fw" and "refs fw' = refs fw"
    and "dummies (inputs fw') = dummies (inputs fw)"
    and "fw_height fw' = fw_height fw" and "fw_width fw' = fw_width fw"
    and "\<forall>i < length (inputs fw). i \<noteq> nat (current_input fw) \<longrightarrow> inputs fw' ! i = inputs fw ! i"
    and "map (color_of \<circ> e_input) (inputs fw') = map (color_of \<circ> e_input) (inputs fw)"
    by simp_all
qed

section \<open>Properties of reply\<close>

text \<open>
  C3.  \<^verbatim>\<open>FormWin.reply\<close> on a form window whose inputs refer to distinct fields of
  the form and can all reply: it raises nothing, makes no call, and leaves the form
  \<open>committed\<close>, in which the title and the instructions are empty, the names of the
  fields are unchanged, and each field is what \<open>replied_field\<close> says: the field of an
  input that is not a dummy has the answer of that input as its value and an empty
  label (and no options, for the two list inputs); every other field, the fields of
  dummies and the hidden ones among them, is untouched.
\<close>

theorem FormWin_reply_commits:
  assumes "refs_ok fw" and "list_all can_reply (inputs fw)"
  shows "FormWin_reply fw = ([], Inr (fw\<lparr>fw_form := committed fw\<rparr>)) \<and>
    (\<forall>r. field_at (committed fw) r = replied_field fw r) \<and>
    fm_title (committed fw) = [] \<and> fm_instructions (committed fw) = [] \<and>
    field_names (committed fw) = field_names (fw_form fw)"
  using assms
  by (simp add: FormWin_reply_eq committed_field ret_def) (simp add: committed_def)

theorem FormWin_reply_commits_witness:
  "refs_ok example_win \<and> list_all can_reply (inputs example_win) \<and>
   snd (FormWin_init example_form 24 80 1 0) = Inr example_win \<and>
   FormWin_reply example_win = ([], Inr (example_win\<lparr>fw_form := example_reply\<rparr>))"
  using FormWin_reply_commits [of example_win] example_win_ok
  by (simp add: widgets_ok_can_reply committed_example built_example)

text \<open>
  C25.  On a form window whose list inputs have their cursor clamped into their
  options, \<^verbatim>\<open>FormWin.reply\<close> raises \<^verbatim>\<open>IndexError\<close> exactly when some single-choice
  list input has no options; otherwise it returns.
\<close>

theorem FormWin_reply_raises:
  assumes "inputs_inv fw"
  shows "snd (FormWin_reply fw) =
     (if \<exists>inp \<in> set (inputs fw). \<exists>s. e_input inp = ListSingleWin s \<and> ls_options s = []
      then Inl IndexError else Inr (fw\<lparr>fw_form := committed fw\<rparr>))"
proof -
  have "can_reply inp \<longleftrightarrow> \<not> (\<exists>s. e_input inp = ListSingleWin s \<and> ls_options s = [])"
    if "inp \<in> set (inputs fw)" for inp
    using that assms cursor_ok_index_ok
    by (fastforce simp: can_reply_iff inputs_inv_def list_all_iff)
  then have "list_all can_reply (inputs fw) \<longleftrightarrow>
      \<not> (\<exists>inp \<in> set (inputs fw). \<exists>s. e_input inp = ListSingleWin s \<and> ls_options s = [])"
    by (auto simp: list_all_iff)
  then show ?thesis by (simp add: FormWin_reply_eq)
qed

theorem FormWin_reply_raises_witness:
  "\<exists>fw. snd (FormWin_init \<lparr>fm_title = [], fm_instructions = [],
          fm_fields = [(''room'', mk_field ''list-single'' PNone)]\<rparr> 24 80 1 0) = Inr fw \<and>
     snd (FormWin_reply fw) = Inl IndexError"
proof -
  let ?F = "\<lparr>fm_title = [], fm_instructions = [],
             fm_fields = [(''room'', mk_field ''list-single'' PNone)]\<rparr>"
  let ?e = "\<lparr>e_label = PStr ''label'', e_instructions = [],
             e_input = ListSingleWin (ListSingleWin_init 0 (mk_field ''list-single'' PNone))\<rparr>"
  let ?W = "\<lparr>fw_form = ?F, current_input = 0, inputs = [?e], fw_height = 0, fw_width = 0\<rparr>"
  have b: "built ?F = Inr ?W"
    by (simp add: built_def visible_def shown_def make_entry_def normalise_def norm_field_def
        known_type_iff mk_field_def field_at_def form_defs)
  have "ls_options (ListSingleWin_init 0 (mk_field ''list-single'' PNone)) = []"
    by (simp add: ListSingleWin_init_def mk_field_def form_defs)
  with FormWin_reply_raises [OF built_Inr(4) [OF b]] b show ?thesis by simp
qed

section \<open>Properties of the construction\<close>

text \<open>
  C12.  \<^verbatim>\<open>FormWin.__init__\<close> creates the curses window and then has the outcome
  \<open>built\<close>: one input per field that is not hidden, in the order of the fields, of
  the class that \<^verbatim>\<open>input_classes\<close> gives for the type of the field and a text input
  for any other type; the focus index is 0; the form is the given one with the value
  of every field of an unknown type replaced by the name of its type; and the
  construction raises what the first failing constructor raises.
\<close>

theorem FormWin_init_builds:
  "FormWin_init fm h wd y x = ([FormCall (Newwin h wd y x)], built fm) \<and>
   (\<forall>fw. built fm = Inr fw \<longrightarrow>
      refs fw = visible fm \<and> fw_form fw = normalise fm \<and>
      dummies (inputs fw) = map (\<lambda>r. f_type (field_at fm r) = ''fixed'') (visible fm))"
  by (simp add: FormWin_init_eq built_Inr)

theorem FormWin_init_builds_witness:
  "FormWin_init example_form 24 80 1 0 = ([FormCall (Newwin 24 80 1 0)], Inr example_win) \<and>
   refs example_win = [1, 2] \<and> dummies (inputs example_win) = [True, False]"
proof -
  from FormWin_init_builds [of example_form 24 80 1 0] built_example
  have "FormWin_init example_form 24 80 1 0 = ([FormCall (Newwin 24 80 1 0)], Inr example_win)"
    and "refs example_win = visible example_form"
    and "dummies (inputs example_win) =
      map (\<lambda>r. f_type (field_at example_form r) = ''fixed'') (visible example_form)"
    by simp_all
  then show ?thesis by (simp add: visible_example) (simp add: example_fields)
qed

text \<open>
  C27.  A form window that \<^verbatim>\<open>FormWin.__init__\<close> returns satisfies the invariants
  of the form window: the focus index is in range (it is 0), the inputs refer to
  distinct fields of the form, the cursor of every list input is clamped into its
  options, and every input has the unfocused colour.
\<close>

theorem FormWin_init_establishes:
  assumes "snd (FormWin_init fm h wd y x) = Inr fw"
  shows "focus_ok fw \<and> refs_ok fw \<and> inputs_inv fw \<and> current_input fw = 0 \<and>
    list_all (\<lambda>inp. color_of (e_input inp) = unfocused) (inputs fw)"
  using assms by (simp add: built_Inr)

theorem FormWin_init_establishes_witness:
  "snd (FormWin_init example_form 24 80 1 0) = Inr example_win \<and>
   focus_ok example_win \<and> refs_ok example_win \<and> inputs_inv example_win"
  using FormWin_init_establishes [of example_form 24 80 1 0 example_win]
  by (simp add: built_example)

text \<open>
  C26.  \<^verbatim>\<open>FormWin.__init__\<close> raises exactly when some field that is not hidden is
  a multiple-choice list with at least one option whose value is \<^verbatim>\<open>None\<close> or a
  boolean, and what it raises then is the \<^verbatim>\<open>TypeError\<close> of the membership test in
  \<^verbatim>\<open>ListMultiWin.__init__\<close>.
\<close>

theorem FormWin_init_raises:
  "snd (FormWin_init fm h wd y x) = Inl e \<longleftrightarrow>
     e = TypeError \<and> (\<exists>r \<in> set (visible fm). uniterable (field_at fm r))"
  by (simp add: built_fails_iff)

theorem FormWin_init_raises_witness:
  "snd (FormWin_init \<lparr>fm_title = [], fm_instructions = [],
      fm_fields = [(''features'',
        (mk_field ''list-multi'' PNone)\<lparr>f_options := [\<lparr>o_value = ''a'', o_label = ''A''\<rparr>]\<rparr>)]\<rparr>
      24 80 1 0) = Inl TypeError"
  using FormWin_init_raises [of "\<lparr>fm_title = [], fm_instructions = [],
      fm_fields = [(''features'',
        (mk_field ''list-multi'' PNone)\<lparr>f_options := [\<lparr>o_value = ''a'', o_label = ''A''\<rparr>]\<rparr>)]\<rparr>"
      24 80 1 0 TypeError]
  by (simp add: visible_def shown_def uniterable_def mk_field_def field_at_def)

section \<open>Properties of on_input\<close>

text \<open>
  C21.  When the focus is on a dummy, \<^verbatim>\<open>FormWin.on_input\<close> raises \<^verbatim>\<open>TypeError\<close>
  whatever the key, and makes no call: \<^verbatim>\<open>DummyInput.do_command\<close> takes no key.  A
  form whose first field that is not hidden has the type \<^verbatim>\<open>fixed\<close> is in this state
  right after its construction.
\<close>

theorem FormWin_on_input_dummy:
  assumes "inputs fw \<noteq> []" and "focus_ok fw"
    and "is_dummy (input_at fw (current_input fw))"
  shows "FormWin_on_input ed k fw = ([], Inl TypeError)"
  using assms focus_ok_range [of fw]
  by (simp add: FormWin_on_input_def call_input_in_range raise_def)

theorem FormWin_on_input_dummy_witness:
  "snd (FormWin_init example_form 24 80 1 0) = Inr example_win \<and>
   FormWin_on_input (\<lambda>k s. s) ''a'' example_win = ([], Inl TypeError)"
  using FormWin_on_input_dummy [of example_win "\<lambda>k s. s" "''a''"] example_win_ok(1)
  by (simp add: built_example) (simp add: example_win_def input_at_def)

text \<open>
  C28.  A key that \<^verbatim>\<open>FormWin.on_input\<close> handles without raising changes nothing
  but the state of the focused input: the focus index, the form, the fields the
  inputs refer to, which inputs are dummies, and every other input stay as they
  were, and the invariants of the form window are kept.
\<close>

theorem FormWin_on_input_frame:
  assumes "focus_ok fw" and "inputs_inv fw" and "snd (FormWin_on_input ed k fw) = Inr fw'"
  shows "focus_ok fw' \<and> inputs_inv fw' \<and> current_input fw' = current_input fw \<and>
    fw_form fw' = fw_form fw \<and> refs fw' = refs fw \<and>
    dummies (inputs fw') = dummies (inputs fw) \<and>
    map (color_of \<circ> e_input) (inputs fw') = map (color_of \<circ> e_input) (inputs fw) \<and>
    (\<forall>i < length (inputs fw). i \<noteq> nat (current_input fw) \<longrightarrow> inputs fw' ! i = inputs fw ! i)"
  using FormWin_on_input_keeps [OF assms] by simp

theorem FormWin_on_input_frame_witness:
  "snd (FormWin_on_input (\<lambda>k s. s) KEY_RIGHT
      (win_of [BooleanWin (BooleanWin_init 0 (mk_field ''boolean'' (PBool False)))] 0)) =
     Inr (win_of [BooleanWin ((BooleanWin_init 0 (mk_field ''boolean'' (PBool False)))
            \<lparr>bw_value := True\<rparr>)] 0)"
proof -
  let ?W = "win_of [BooleanWin (BooleanWin_init 0 (mk_field ''boolean'' (PBool False)))] 0"
  have r: "snd (FormWin_on_input (\<lambda>k s. s) KEY_RIGHT ?W) =
     Inr (win_of [BooleanWin ((BooleanWin_init 0 (mk_field ''boolean'' (PBool False)))
            \<lparr>bw_value := True\<rparr>)] 0)"
    by (simp add: FormWin_on_input_def call_input_in_range snd_bind
        BooleanWin_do_command_def BooleanWin_refresh_def form_defs mk_field_def)
      (simp add: win_of_def entry_of_def)
  have "focus_ok ?W" "inputs_inv ?W" by (simp_all add: inputs_inv_def entry_of_def)
  from FormWin_on_input_frame [OF this r] r show ?thesis by simp
qed

end
