(* ===== verification/FormWin_Refresh.thy ===== *)
theory FormWin_Refresh
  imports FormWin_Fields
begin

text \<open>
  \<^verbatim>\<open>FormWin.refresh\<close>: the loop over the fields that writes the labels and the
  instructions and places the inputs, the loop that draws the inputs, and the two
  calls on the focused input.

  \<open>refreshed\<close> is the state a refresh leaves; the lemmas relate the first loop to
  \<open>widen_run\<close>, which sets the width of a run of inputs, and \<open>widen_run\<close> over all
  the inputs to \<open>set_widths\<close>.
\<close>

section \<open>Specification\<close>

text \<open>
  \<open>attached\<close>: there is one input per visible field.  \<open>labels_ok\<close>: every label
  is a string, so that curses accepts it.
\<close>

definition widen :: "int \<Rightarrow> nat \<Rightarrow> form_win \<Rightarrow> form_win" where
  "widen n j fw = put_input j (upd_width n (e_input (inputs fw ! j))) fw"

fun widen_run :: "int \<Rightarrow> nat \<Rightarrow> nat \<Rightarrow> form_win \<Rightarrow> form_win" where
  "widen_run n i 0 fw = fw"
| "widen_run n i (Suc k) fw = widen_run n (Suc i) k (widen n i fw)"

definition set_widths :: "int \<Rightarrow> entry list \<Rightarrow> entry list" where
  "set_widths n inps = map (\<lambda>inp. inp\<lparr>e_input := upd_width n (e_input inp)\<rparr>) inps"

definition refreshed :: "form_win \<Rightarrow> form_win" where
  "refreshed fw =
     fw\<lparr>inputs := recolor (nat (current_input fw)) focused
                     (set_widths (fw_width fw div 3) (inputs fw))\<rparr>"

definition labels_ok :: "form_win \<Rightarrow> bool" where
  "labels_ok fw \<longleftrightarrow> list_all (\<lambda>inp. is_str (e_label inp)) (inputs fw)"

definition attached :: "form_win \<Rightarrow> bool" where
  "attached fw \<longleftrightarrow> length (inputs fw) = length (visible (fw_form fw))"

text \<open>\<open>same_but_look\<close>: two form windows differ at most in the colours and widths of
  their inputs.\<close>

definition same_but_look :: "form_win \<Rightarrow> form_win \<Rightarrow> bool" where
  "same_but_look fw fw' \<longleftrightarrow>
     fw_form fw' = fw_form fw \<and> current_input fw' = current_input fw \<and>
     fw_height fw' = fw_height fw \<and> fw_width fw' = fw_width fw \<and>
     plain (inputs fw') = plain (inputs fw)"

section \<open>Lemmas: the loop over the fields\<close>

lemma addstr_form_str: "is_str v \<Longrightarrow> snd (addstr_form y x v) = Inr ()"
  by (cases v) (simp_all add: addstr_form_def)

lemma widen_frame [simp]:
  "fw_form (widen n j fw) = fw_form fw" "fw_width (widen n j fw) = fw_width fw"
  "fw_height (widen n j fw) = fw_height fw" "current_input (widen n j fw) = current_input fw"
  "length (inputs (widen n j fw)) = length (inputs fw)"
  by (simp_all add: widen_def put_input_def)

lemma widen_labels [simp]: "map e_label (inputs (widen n j fw)) = map e_label (inputs fw)"
  by (cases "j < length (inputs fw)")
    (auto simp: widen_def put_input_def nth_list_update list_update_beyond intro!: nth_equalityI)

lemma labels_ok_map: "labels_ok fw \<longleftrightarrow> list_all is_str (map e_label (inputs fw))"
  by (simp add: labels_ok_def list_all_iff)

lemma labels_ok_widen [simp]: "labels_ok (widen n j fw) = labels_ok fw"
  by (simp add: labels_ok_map)

lemma call_resize_input:
  "j < length (inputs fw) \<Longrightarrow>
   snd (call_input (int j) (resize_input h n y x) fw) = Inr (widen n j fw)"
  by (simp add: call_input_def snd_bind widen_def put_input_def)

lemma refresh_field_step:
  assumes "j < length (inputs fw)" and "labels_ok fw"
  shows "snd (refresh_field r (fw, y, int j)) =
     (if shown (fw_form fw) r
      then Inr (widen (fw_width fw div 3) j fw,
                (if f_instructions (field_at (fw_form fw) r) \<noteq> [] then y + 1 else y) + 1,
                int (j + 1))
      else Inr (fw, y, int j))"
proof -
  from assms have "snd (addstr_form y 0 (e_label (inputs fw ! j))) = Inr ()"
    by (intro addstr_form_str) (simp add: labels_ok_def list_all_length)
  with assms(1) show ?thesis
    by (simp add: refresh_field_def shown_def Let_def snd_bind call_resize_input)
qed

lemma refresh_fields:
  assumes "i + length (filter (shown (fw_form fw)) rs) \<le> length (inputs fw)"
    and "labels_ok fw"
  shows "\<exists>y'. snd (io_fold refresh_field rs (fw, y, int i)) =
     Inr (widen_run (fw_width fw div 3) i (length (filter (shown (fw_form fw)) rs)) fw, y',
          int (i + length (filter (shown (fw_form fw)) rs)))"
  using assms
proof (induction rs arbitrary: fw y i)
  case Nil
  then show ?case by simp
next
  case (Cons r rs)
  show ?case
  proof (cases "shown (fw_form fw) r")
    case False
    then have "snd (refresh_field r (fw, y, int i)) = Inr (fw, y, int i)"
      by (simp add: refresh_field_def shown_def)
    with Cons.IH [of i fw y] Cons.prems False show ?thesis by (simp add: snd_bind)
  next
    case True
    let ?n = "fw_width fw div 3"
    let ?y = "(if f_instructions (field_at (fw_form fw) r) \<noteq> [] then y + 1 else y) + 1"
    from True Cons.prems have i: "i < length (inputs fw)" by simp
    with True Cons.prems have step: "snd (refresh_field r (fw, y, int i)) =
        Inr (widen ?n i fw, ?y, int (Suc i))"
      by (simp add: refresh_field_step)
    from True Cons.prems Cons.IH [of "Suc i" "widen ?n i fw" ?y]
    obtain y' where "snd (io_fold refresh_field rs (widen ?n i fw, ?y, int (Suc i))) =
        Inr (widen_run ?n (Suc i) (length (filter (shown (fw_form fw)) rs)) (widen ?n i fw), y',
             int (Suc i + length (filter (shown (fw_form fw)) rs)))"
      by auto
    with True step show ?thesis by (simp add: snd_bind)
  qed
qed

lemma widen_nth:
  "j < length (inputs fw) \<Longrightarrow>
   inputs (widen n i fw) ! j =
     (if j = i then (inputs fw ! j)\<lparr>e_input := upd_width n (e_input (inputs fw ! j))\<rparr>
      else inputs fw ! j)"
  by (auto simp: widen_def put_input_def nth_list_update)

lemma widen_run_frame [simp]:
  "fw_form (widen_run n i k fw) = fw_form fw" "fw_width (widen_run n i k fw) = fw_width fw"
  "fw_height (widen_run n i k fw) = fw_height fw"
  "current_input (widen_run n i k fw) = current_input fw"
  "length (inputs (widen_run n i k fw)) = length (inputs fw)"
  by (induction k arbitrary: i fw) simp_all

lemma widen_run_nth:
  "j < length (inputs fw) \<Longrightarrow>
   inputs (widen_run n i k fw) ! j =
     (if i \<le> j \<and> j < i + k
      then (inputs fw ! j)\<lparr>e_input := upd_width n (e_input (inputs fw ! j))\<rparr>
      else inputs fw ! j)"
proof (induction k arbitrary: i fw)
  case 0
  then show ?case by auto
next
  case (Suc k)
  from Suc.prems have "j < length (inputs (widen n i fw))" by simp
  from Suc.IH [OF this] Suc.prems show ?case by (auto simp: widen_nth)
qed

lemma widen_run_all:
  "widen_run n 0 (length (inputs fw)) fw = fw\<lparr>inputs := set_widths n (inputs fw)\<rparr>"
proof -
  have "inputs (widen_run n 0 (length (inputs fw)) fw) = set_widths n (inputs fw)"
    by (rule nth_equalityI) (simp_all add: widen_run_nth set_widths_def)
  then show ?thesis by (intro form_win.equality) simp_all
qed

lemma refresh_all:
  "snd (io_fold (\<lambda>inp u. refresh (e_input inp)) inps ()) =
     (if list_all (\<lambda>inp. renderable (e_input inp)) inps then Inr () else Inl IndexError)"
  by (induction inps) (simp_all add: snd_bind refresh_result)

lemma renderable_set_widths [simp]:
  "list_all (\<lambda>inp. renderable (e_input inp)) (set_widths n inps) =
   list_all (\<lambda>inp. renderable (e_input inp)) inps"
  by (simp add: set_widths_def list_all_iff)

lemma length_set_widths [simp]: "length (set_widths n inps) = length inps"
  by (simp add: set_widths_def)

lemma call_refresh_again:
  assumes "0 \<le> i" and "i < int (length (inputs fw))"
  shows "snd (call_input i (\<lambda>w. bind (refresh w) (\<lambda>_. ret w)) fw) =
     (if renderable (input_at fw i) then Inr fw else Inl IndexError)"
  using assms
  by (simp add: call_input_in_range snd_bind refresh_result input_at_def list_update_same_conv)

lemma call_input_Nil: "inputs fw = [] \<Longrightarrow> call_input i m fw = raise IndexError"
  by (auto simp: call_input_def py_index_def)

lemma refresh_locked:
  assumes "attached fw" and "labels_ok fw"
  shows "snd (with_lock
      (bind (emit (FormCall Erase))
        (\<lambda>_. bind (io_fold refresh_field [0 ..< length (getFields (fw_form fw))] (fw, 0, 0))
        (\<lambda>s. bind (emit (FormCall Refresh)) (\<lambda>_. ret (fst s)))))) =
     Inr (fw\<lparr>inputs := set_widths (fw_width fw div 3) (inputs fw)\<rparr>)"
proof -
  from assms(1) have "length (filter (shown (fw_form fw)) [0 ..< length (fm_fields (fw_form fw))]) =
      length (inputs fw)"
    by (simp add: attached_def visible_def)
  with refresh_fields [of 0 fw "[0 ..< length (fm_fields (fw_form fw))]" 0] assms(2)
  obtain y' where "snd (io_fold refresh_field [0 ..< length (fm_fields (fw_form fw))] (fw, 0, 0)) =
      Inr (fw\<lparr>inputs := set_widths (fw_width fw div 3) (inputs fw)\<rparr>, y', int (length (inputs fw)))"
    by (auto simp: widen_run_all)
  then show ?thesis by (simp add: snd_bind form_defs)
qed

lemma FormWin_refresh_result:
  assumes "attached fw" and "labels_ok fw" and "focus_ok fw"
  shows "snd (FormWin_refresh fw) =
     (if inputs fw \<noteq> [] \<and> list_all (\<lambda>inp. renderable (e_input inp)) (inputs fw)
      then Inr (refreshed fw) else Inl IndexError)"
proof -
  let ?n = "fw_width fw div 3"
  let ?fw1 = "fw\<lparr>inputs := set_widths ?n (inputs fw)\<rparr>"
  note locked = refresh_locked [OF assms(1,2)]
  show ?thesis
  proof (cases "inputs fw = []")
    case True
    then have "call_input (current_input fw) (set_color focused) ?fw1 = raise IndexError"
      by (intro call_input_Nil) (simp add: set_widths_def)
    with True locked show ?thesis
      by (simp add: FormWin_refresh_def snd_bind set_widths_def)
  next
    case False
    with assms(3) have c: "0 \<le> current_input fw" "current_input fw < int (length (inputs fw))"
      using focus_ok_range [of fw] by simp_all
    have at: "renderable (input_at ?fw1 (current_input fw)) =
        renderable (input_at fw (current_input fw))"
      using c by (simp add: input_at_def set_widths_def)
    have at2: "renderable (input_at (fw\<lparr>inputs := recolor (nat (current_input fw)) focused
        (set_widths ?n (inputs fw))\<rparr>) (current_input fw)) =
        renderable (input_at fw (current_input fw))"
      using c by (simp add: input_at_def recolor_def set_widths_def)
    have all: "list_all (\<lambda>inp. renderable (e_input inp)) (inputs fw) \<Longrightarrow>
        renderable (input_at fw (current_input fw))"
      using c by (simp add: list_all_length input_at_def)
    from c False locked at at2 all show ?thesis
      by (auto simp: FormWin_refresh_def snd_bind refresh_all call_set_color call_refresh_again
          refreshed_def)
  qed
qed

lemma quiet_call_input: "(\<And>w. quiet (m w)) \<Longrightarrow> quiet (call_input i m fw)"
  unfolding call_input_def by (intro quiet_bind) simp_all

lemma quiet_addstr_form [simp]: "quiet (addstr_form y x v)"
  by (cases v) (simp_all add: addstr_form_def)

lemma quiet_refresh_field [simp]: "quiet (refresh_field r s)"
  unfolding refresh_field_def Let_def
  by (intro quiet_if quiet_bind quiet_call_input) simp_all

lemma disciplined_FormWin_refresh [simp]: "disciplined (FormWin_refresh fw)"
  unfolding FormWin_refresh_def
  by (intro disciplined_bind disciplined_with_lock_quiet disciplined_io_fold quiet_bind
      quiet_io_fold disciplined_call_input) simp_all

lemma recolor_nth:
  "j < length inps \<Longrightarrow>
   recolor k c inps ! j = (if j = k then (inps ! j)\<lparr>e_input := upd_color c (e_input (inps ! j))\<rparr>
                           else inps ! j)"
  by (auto simp: recolor_def nth_list_update)

lemma refreshed_frame [simp]:
  "fw_form (refreshed fw) = fw_form fw" "current_input (refreshed fw) = current_input fw"
  "fw_width (refreshed fw) = fw_width fw" "fw_height (refreshed fw) = fw_height fw"
  "length (inputs (refreshed fw)) = length (inputs fw)"
  "focus_ok (refreshed fw) = focus_ok fw" "attached (refreshed fw) = attached fw"
  by (simp_all add: refreshed_def focus_ok_def cursor_ok_def attached_def)

lemma refreshed_Nil_iff [simp]: "inputs (refreshed fw) = [] \<longleftrightarrow> inputs fw = []"
  by (simp add: refreshed_def set_widths_def recolor_def)

lemma refreshed_nth:
  "j < length (inputs fw) \<Longrightarrow>
   inputs (refreshed fw) ! j =
     (inputs fw ! j)\<lparr>e_input :=
        (if j = nat (current_input fw) then upd_color focused else id)
          (upd_width (fw_width fw div 3) (e_input (inputs fw ! j)))\<rparr>"
  by (simp add: refreshed_def recolor_nth set_widths_def)

lemma upd_width_idem [simp]: "upd_width n (upd_width m w) = upd_width n w"
  by (cases w) simp_all

lemma upd_width_color [simp]: "upd_width n (upd_color c w) = upd_color c (upd_width n w)"
  by (cases w) simp_all

lemma refreshed_idem: "refreshed (refreshed fw) = refreshed fw"
proof -
  have "inputs (refreshed (refreshed fw)) = inputs (refreshed fw)"
    by (rule nth_equalityI) (simp_all add: refreshed_nth upd_color_idem)
  then show ?thesis by (intro form_win.equality) simp_all
qed

lemma refreshed_invs [simp]:
  "labels_ok (refreshed fw) = labels_ok fw" "widgets_ok (refreshed fw) = widgets_ok fw"
  "inputs_inv (refreshed fw) = inputs_inv fw"
  by (auto simp: labels_ok_def widgets_ok_def inputs_inv_def list_all_length refreshed_nth)

lemma widgets_ok_all_renderable:
  "widgets_ok fw \<Longrightarrow> list_all (\<lambda>inp. renderable (e_input inp)) (inputs fw)"
  by (simp add: widgets_ok_def list_all_iff)

lemma example_win_refresh: "attached example_win" "labels_ok example_win" "inputs example_win \<noteq> []"
  by (simp_all add: attached_def labels_ok_def example_win_def visible_example)

section \<open>Lemmas: what a refresh leaves alone\<close>

lemma same_but_look_refl [simp]: "same_but_look fw fw"
  by (simp add: same_but_look_def)

lemma same_but_look_trans:
  "same_but_look fw fw' \<Longrightarrow> same_but_look fw' fw'' \<Longrightarrow> same_but_look fw fw''"
  by (simp add: same_but_look_def)

lemma call_input_general:
  assumes "snd (call_input i m fw) = Inr fw'"
  obtains k w where "k < length (inputs fw)" and "snd (m (e_input (inputs fw ! k))) = Inr w"
    and "fw' = put_input k w fw"
  using assms
  by (auto simp: call_input_def snd_bind put_input_def split: sum.splits dest: py_index_less)

lemma put_input_plain:
  assumes "upd_width 0 (upd_color unfocused w) =
     upd_width 0 (upd_color unfocused (e_input (inputs fw ! k)))"
  shows "plain (inputs (put_input k w fw)) = plain (inputs fw)"
proof (cases "k < length (inputs fw)")
  case True
  with assms show ?thesis
    by (auto simp: plain_def put_input_def nth_list_update intro!: nth_equalityI)
next
  case False
  then show ?thesis by (simp add: put_input_def list_update_beyond)
qed

lemma call_input_look:
  assumes "snd (call_input i m fw) = Inr fw'"
    and "\<And>w w'. snd (m w) = Inr w' \<Longrightarrow>
      upd_width 0 (upd_color unfocused w') = upd_width 0 (upd_color unfocused w)"
  shows "same_but_look fw fw'"
proof -
  from assms(1) obtain k w where "snd (m (e_input (inputs fw ! k))) = Inr w"
    and fw': "fw' = put_input k w fw"
    by (rule call_input_general)
  with assms(2) have "plain (inputs (put_input k w fw)) = plain (inputs fw)"
    by (intro put_input_plain) simp
  with fw' show ?thesis by (simp add: same_but_look_def) (simp add: put_input_def)
qed

lemma set_color_look:
  "snd (set_color c w) = Inr w' \<Longrightarrow>
   upd_width 0 (upd_color unfocused w') = upd_width 0 (upd_color unfocused w)"
  by (auto simp: set_color_Inr_iff)

lemma resize_input_look:
  "snd (resize_input h n y x w) = Inr w' \<Longrightarrow>
   upd_width 0 (upd_color unfocused w') = upd_width 0 (upd_color unfocused w)"
  by auto

lemma refresh_field_look:
  assumes "snd (refresh_field r s) = Inr s'"
  shows "same_but_look (fst s) (fst s')"
proof (cases "f_type (field_at (fw_form (fst s)) r) = ''hidden''")
  case True
  with assms show ?thesis by (simp add: refresh_field_def Let_def)
next
  case False
  with assms obtain fw' where
    "snd (call_input (snd (snd s))
       (resize_input 1 (fw_width (fst s) div 3) (fst (snd s) + 1) (2 * fw_width (fst s) div 3))
       (fst s)) = Inr fw'" and "fst s' = fw'"
    by (auto simp: refresh_field_def Let_def bind_Inr_iff split: if_splits)
  then show ?thesis by (auto intro: call_input_look resize_input_look)
qed

lemma FormWin_refresh_look:
  assumes "snd (FormWin_refresh fw) = Inr fw'"
  shows "same_but_look fw fw'"
proof -
  from assms obtain s fw2 where
    loop: "snd (io_fold refresh_field [0 ..< length (getFields (fw_form fw))] (fw, 0, 0)) = Inr s"
    and c1: "snd (call_input (current_input (fst s)) (set_color focused) (fst s)) = Inr fw2"
    and c2: "snd (call_input (current_input fw2) (\<lambda>w. bind (refresh w) (\<lambda>_. ret w)) fw2) = Inr fw'"
    by (auto simp: FormWin_refresh_def bind_Inr_iff)
  have "same_but_look fw (fst s)"
    by (rule io_fold_invariant [where P = "\<lambda>s. same_but_look fw (fst s)", OF _ _ loop])
      (auto dest: refresh_field_look intro: same_but_look_trans)
  moreover from c1 have "same_but_look (fst s) fw2"
    by (rule call_input_look) (rule set_color_look)
  moreover from c2 have "same_but_look fw2 fw'"
    by (rule call_input_look) (auto simp: bind_Inr_iff)
  ultimately show ?thesis by (blast intro: same_but_look_trans)
qed

lemma look_keeps:
  assumes "same_but_look fw fw'"
  shows "focus_ok fw' = focus_ok fw" and "inputs_inv fw' = inputs_inv fw"
    and "refs fw' = refs fw" and "dummies (inputs fw') = dummies (inputs fw)"
    and "fw_form fw' = fw_form fw"
proof -
  from assms have p: "plain (inputs fw') = plain (inputs fw)"
    and c: "current_input fw' = current_input fw" and "fw_form fw' = fw_form fw"
    by (simp_all add: same_but_look_def)
  then show "fw_form fw' = fw_form fw" by simp
  from plain_cong [OF p] c show "focus_ok fw' = focus_ok fw"
    by (simp add: focus_ok_def cursor_ok_def)
  from plain_cong [OF p] show "inputs_inv fw' = inputs_inv fw" "refs fw' = refs fw"
    "dummies (inputs fw') = dummies (inputs fw)" by simp_all
qed

lemma form_win_inv_update [simp]:
  "form_win_inv fm (fw\<lparr>fw_form := f\<rparr>) = form_win_inv fm fw"
  "form_win_inv fm (fw\<lparr>fw_height := h\<rparr>) = form_win_inv fm fw"
  "form_win_inv fm (fw\<lparr>fw_width := n\<rparr>) = form_win_inv fm fw"
  by (simp_all add: form_win_inv_def focus_ok_def inputs_inv_def refs_def)

lemma command_keeps:
  assumes "form_win_inv fm fw"
    and "snd (go_to_next_input fw) = Inr fw' \<or> snd (go_to_previous_input fw) = Inr fw' \<or>
         snd (FormWin_on_input ed k fw) = Inr fw' \<or> snd (FormWin_refresh fw) = Inr fw'"
  shows "form_win_inv fm fw'" and "fw_form fw' = fw_form fw"
proof -
  from assms(1) have f: "focus_ok fw" and i: "inputs_inv fw" by (simp_all add: form_win_inv_def)
  from assms(2) consider
    (move) "snd (go_to_next_input fw) = Inr fw' \<or> snd (go_to_previous_input fw) = Inr fw'"
    | (key) "snd (FormWin_on_input ed k fw) = Inr fw'" | (draw) "snd (FormWin_refresh fw) = Inr fw'"
    by blast
  then have "form_win_inv fm fw' = form_win_inv fm fw \<and> fw_form fw' = fw_form fw"
  proof cases
    case move
    from moves_frame [OF f move] uncolor_cong [OF moves_frame(3) [OF f move]] f
    show ?thesis by (simp add: form_win_inv_def)
  next
    case key
    from FormWin_on_input_keeps [OF f i key] f i show ?thesis by (simp add: form_win_inv_def)
  next
    case draw
    from look_keeps [OF FormWin_refresh_look [OF draw]] show ?thesis
      by (simp add: form_win_inv_def)
  qed
  with assms(1) show "form_win_inv fm fw'" "fw_form fw' = fw_form fw" by simp_all
qed

section \<open>Properties of refresh\<close>

text \<open>
  C29.  \<^verbatim>\<open>FormWin.refresh\<close> on a form window that has one input per visible field,
  string labels, a focus index in range, at least one input, and inputs that can all
  be drawn: it raises nothing and leaves the state \<open>refreshed\<close>, in which every input
  has a third of the width of the form window and the focused input has the focused
  colour; nothing else is changed, and refreshing again changes nothing more.
\<close>

theorem FormWin_refresh_refines:
  assumes "attached fw" and "labels_ok fw" and "focus_ok fw" and "widgets_ok fw"
    and "inputs fw \<noteq> []"
  shows "snd (FormWin_refresh fw) = Inr (refreshed fw) \<and>
    snd (bind (FormWin_refresh fw) FormWin_refresh) = Inr (refreshed fw)"
  using assms
  by (simp add: snd_bind FormWin_refresh_result widgets_ok_all_renderable refreshed_idem)

theorem FormWin_refresh_refines_witness:
  "snd (FormWin_init example_form 24 80 1 0) = Inr example_win \<and>
   snd (FormWin_refresh example_win) =
     Inr (example_win\<lparr>inputs :=
       [\<lparr>e_label = PStr ''Section'', e_instructions = [],
          e_input = upd_color focused (dummy_input 1)\<rparr>,
        \<lparr>e_label = PStr ''label'', e_instructions = [], e_input = text_input 2 ''hello''\<rparr>]\<rparr>)"
proof -
  have "refreshed example_win = example_win\<lparr>inputs :=
       [\<lparr>e_label = PStr ''Section'', e_instructions = [],
          e_input = upd_color focused (dummy_input 1)\<rparr>,
        \<lparr>e_label = PStr ''label'', e_instructions = [], e_input = text_input 2 ''hello''\<rparr>]\<rparr>"
    by (simp add: refreshed_def set_widths_def recolor_def example_win_def text_input_def
        dummy_input_def)
  with FormWin_refresh_refines [OF example_win_refresh(1,2) example_win_ok(1,3)
      example_win_refresh(3)]
  show ?thesis by (simp add: built_example)
qed

end
