(* ===== verification/DataFormsTab.thy ===== *)
theory DataFormsTab
  imports FormWin_Refresh
begin

text \<open>
  The class \<^verbatim>\<open>DataFormsTab\<close> of \<^verbatim>\<open>src/src/data_forms.py\<close>: the tab that owns the
  form window, binds four keys to the two moves of the focus and to the two
  commands \<^verbatim>\<open>on_cancel\<close> and \<^verbatim>\<open>on_send\<close>, and passes every other key to the form
  window.

  What the tab gets from outside is a parameter of the model: the line editor of
  the text inputs and the method \<^verbatim>\<open>reply\<close> of the form object (record \<open>host\<close>), and
  the size of the screen that \<^verbatim>\<open>Tab.resize\<close> reads.  The two callbacks are events
  of the trace, with the form they are applied to.  \<open>reachable\<close> is the set of states
  of a tab: what the constructor returns, and what an operation that returns leaves.
\<close>

section \<open>State\<close>

record host =
  editor :: line_editor
  form_reply :: "form \<Rightarrow> form"

record tab =
  form_win :: form_win
  tab_height :: int
  tab_width :: int
  lines :: "string list"

datatype command = GoToPreviousInput | GoToNextInput | OnCancelCommand | OnSendCommand

definition key_func :: "key \<rightharpoonup> command" where
  "key_func =
     [KEY_UP \<mapsto> GoToPreviousInput,
      KEY_DOWN \<mapsto> GoToNextInput,
      ''^G'' \<mapsto> OnCancelCommand,
      ''^Y'' \<mapsto> OnSendCommand]"

section \<open>Operations\<close>

text \<open>A method of the form window called on \<^verbatim>\<open>self.form_win\<close>.\<close>

definition in_form_win :: "(form_win \<Rightarrow> form_win io) \<Rightarrow> tab \<Rightarrow> tab io" where
  "in_form_win m t = bind (m (form_win t)) (\<lambda>fw. ret (t\<lparr>form_win := fw\<rparr>))"

definition DataFormsTab_resize :: "int \<times> int \<Rightarrow> tab \<Rightarrow> tab io" where
  "DataFormsTab_resize sz t =
     (let t1 = t\<lparr>tab_height := fst sz, tab_width := snd sz\<rparr> in
      bind (emit (WinCall TopicWin (ExtResize 1 (tab_width t1) 0 0)))
        (\<lambda>_. bind (emit (WinCall TabWin (ExtResize 1 (tab_width t1) (tab_height t1 - 2) 0)))
        (\<lambda>_. bind (in_form_win (FormWin_resize (tab_height t1 - 3) (tab_width t1) 1 0) t1)
        (\<lambda>t2. bind (emit (WinCall HelpWin (ExtResize 1 (tab_width t2) (tab_height t2 - 1) 0)))
        (\<lambda>_. ret (t2\<lparr>lines := []\<rparr>))))))"

definition DataFormsTab_init :: "int \<times> int \<Rightarrow> form \<Rightarrow> tab io" where
  "DataFormsTab_init sz fm =
     bind (FormWin_init fm (fst sz - 3) (snd sz) 1 0)
       (\<lambda>fw. DataFormsTab_resize sz
                \<lparr>form_win = fw, tab_height = fst sz, tab_width = snd sz, lines = []\<rparr>)"

definition on_cancel :: "tab \<Rightarrow> tab io" where
  "on_cancel t = bind (emit (OnCancel (fw_form (form_win t)))) (\<lambda>_. ret t)"

definition on_send :: "host \<Rightarrow> tab \<Rightarrow> tab io" where
  "on_send hst t =
     (let fw = (form_win t)\<lparr>fw_form := form_reply hst (fw_form (form_win t))\<rparr> in
      bind (FormWin_reply fw)
        (\<lambda>fw'. bind (emit (OnSend (fw_form fw')))
        (\<lambda>_. ret (t\<lparr>form_win := fw'\<rparr>))))"

fun run_command :: "host \<Rightarrow> command \<Rightarrow> tab \<Rightarrow> tab io" where
  "run_command hst GoToPreviousInput t = in_form_win go_to_previous_input t"
| "run_command hst GoToNextInput t = in_form_win go_to_next_input t"
| "run_command hst OnCancelCommand t = on_cancel t"
| "run_command hst OnSendCommand t = on_send hst t"

definition on_input :: "host \<Rightarrow> key \<Rightarrow> tab \<Rightarrow> tab io" where
  "on_input hst k t =
     (case key_func k of
        Some c \<Rightarrow> run_command hst c t
      | None \<Rightarrow> in_form_win (FormWin_on_input (editor hst) k) t)"

definition DataFormsTab_refresh :: "string list \<Rightarrow> tab \<Rightarrow> tab io" where
  "DataFormsTab_refresh tabs t =
     bind (emit (WinCall TopicWin (ExtRefreshArgs [fm_title (fw_form (form_win t))])))
       (\<lambda>_. bind (lift (py_get tabs 0))
       (\<lambda>first. bind (emit (WinCall TabWin (ExtRefreshArgs (tabs @ [first]))))
       (\<lambda>_. bind (emit (WinCall HelpWin (ExtRefreshArgs [])))
       (\<lambda>_. in_form_win FormWin_refresh t))))"

section \<open>The tab as a state machine\<close>

text \<open>What the application does with a tab, and the states it can be in.\<close>

datatype operation = Key key | DoResize "int \<times> int" | DoRefresh "string list"

fun run :: "host \<Rightarrow> operation \<Rightarrow> tab \<Rightarrow> tab io" where
  "run hst (Key k) t = on_input hst k t"
| "run hst (DoResize sz) t = DataFormsTab_resize sz t"
| "run hst (DoRefresh tabs) t = DataFormsTab_refresh tabs t"

inductive reachable :: "host \<Rightarrow> form \<Rightarrow> tab \<Rightarrow> bool" for hst :: host and fm :: form where
  start: "snd (DataFormsTab_init sz fm) = Inr t \<Longrightarrow> reachable hst fm t"
| step: "reachable hst fm t \<Longrightarrow> snd (run hst op t) = Inr t' \<Longrightarrow> reachable hst fm t'"

text \<open>The invariant of a tab made for the form \<open>fm\<close>.\<close>

definition tab_inv :: "form \<Rightarrow> tab \<Rightarrow> bool" where
  "tab_inv fm t \<longleftrightarrow> form_win_inv fm (form_win t)"

text \<open>The form that \<^verbatim>\<open>on_send\<close> passes to the callback.\<close>

definition sent :: "host \<Rightarrow> tab \<Rightarrow> form" where
  "sent hst t = committed ((form_win t)\<lparr>fw_form := form_reply hst (fw_form (form_win t))\<rparr>)"

section \<open>Example\<close>

text \<open>A host that changes nothing, and the tab made for the example form on a screen of 24 by 80.\<close>

definition example_host :: host where
  "example_host = \<lparr>editor = (\<lambda>k s. s), form_reply = (\<lambda>fm. fm)\<rparr>"

definition example_tab :: tab where
  "example_tab =
     \<lparr>form_win = example_win\<lparr>fw_height := 21, fw_width := 80\<rparr>,
      tab_height = 24, tab_width = 80, lines = []\<rparr>"

section \<open>Lemmas: the operations\<close>

inductive_cases reachable_cases: "reachable hst fm t"

lemma in_form_win_simps:
  "snd (in_form_win m t) = map_sum id (\<lambda>fw. t\<lparr>form_win := fw\<rparr>) (snd (m (form_win t)))"
  "fst (in_form_win m t) = fst (m (form_win t))"
  by (auto simp: in_form_win_def snd_bind fst_bind map_sum_def split: sum.splits)

lemma in_form_win_Inr:
  "snd (in_form_win m t) = Inr t' \<longleftrightarrow>
     (\<exists>fw. snd (m (form_win t)) = Inr fw \<and> t' = t\<lparr>form_win := fw\<rparr>)"
  by (auto simp: in_form_win_simps map_sum_def split: sum.splits)

lemma disciplined_in_form_win: "disciplined (m (form_win t)) \<Longrightarrow> disciplined (in_form_win m t)"
  by (simp add: disciplined_def in_form_win_simps)

lemma key_func_simps [simp]:
  "key_func KEY_UP = Some GoToPreviousInput" "key_func KEY_DOWN = Some GoToNextInput"
  "key_func ''^G'' = Some OnCancelCommand" "key_func ''^Y'' = Some OnSendCommand"
  by (simp_all add: key_func_def)

lemma on_send_eq:
  "on_send hst t =
     (if list_all can_reply (inputs (form_win t))
      then ([OnSend (sent hst t)],
            Inr (t\<lparr>form_win := (form_win t)\<lparr>fw_form := sent hst t\<rparr>\<rparr>))
      else ([], Inl IndexError))"
  by (simp add: on_send_def Let_def FormWin_reply_eq sent_def emit_def ret_def raise_def)

lemma on_cancel_eq: "on_cancel t = ([OnCancel (fw_form (form_win t))], Inr t)"
  by (simp add: on_cancel_def emit_def ret_def)

lemma DataFormsTab_resize_eq:
  "DataFormsTab_resize sz t =
     ([WinCall TopicWin (ExtResize 1 (snd sz) 0 0),
       WinCall TabWin (ExtResize 1 (snd sz) (fst sz - 2) 0),
       FormCall (Resize (fst sz - 3) (snd sz)),
       WinCall HelpWin (ExtResize 1 (snd sz) (fst sz - 1) 0)],
      Inr (t\<lparr>form_win := (form_win t)\<lparr>fw_height := fst sz - 3, fw_width := snd sz\<rparr>,
             tab_height := fst sz, tab_width := snd sz, lines := []\<rparr>))"
  by (simp add: DataFormsTab_resize_def Let_def in_form_win_def FormWin_resize_def emit_def
      ret_def)

lemma DataFormsTab_init_result:
  "snd (DataFormsTab_init sz fm) =
     map_sum id
       (\<lambda>fw. \<lparr>form_win = fw\<lparr>fw_height := fst sz - 3, fw_width := snd sz\<rparr>,
               tab_height = fst sz, tab_width = snd sz, lines = []\<rparr>)
       (built fm)"
  by (cases "built fm")
    (simp_all add: DataFormsTab_init_def snd_bind DataFormsTab_resize_eq)

section \<open>Lemmas: the invariant\<close>

lemma built_inv: "built fm = Inr fw \<Longrightarrow> form_win_inv fm fw"
  by (simp add: form_win_inv_def built_Inr)

lemma DataFormsTab_init_inv:
  assumes "snd (DataFormsTab_init sz fm) = Inr t"
  shows "tab_inv fm t" and "fw_form (form_win t) = normalise fm"
  using assms
  by (auto simp: DataFormsTab_init_result map_sum_def tab_inv_def built_inv built_Inr
      split: sum.splits)

lemma in_form_win_keeps:
  assumes "tab_inv fm t" and "snd (in_form_win m t) = Inr t'"
    and "m = go_to_next_input \<or> m = go_to_previous_input \<or> m = FormWin_on_input ed k \<or>
         m = FormWin_refresh"
  shows "tab_inv fm t'" and "fw_form (form_win t') = fw_form (form_win t)"
proof -
  from assms(2) obtain fw where fw: "snd (m (form_win t)) = Inr fw" and t': "t' = t\<lparr>form_win := fw\<rparr>"
    by (auto simp: in_form_win_Inr)
  with assms(3) have "snd (go_to_next_input (form_win t)) = Inr fw \<or>
      snd (go_to_previous_input (form_win t)) = Inr fw \<or>
      snd (FormWin_on_input ed k (form_win t)) = Inr fw \<or>
      snd (FormWin_refresh (form_win t)) = Inr fw"
    by auto
  from command_keeps [OF _ this, of fm] assms(1) t'
  show "tab_inv fm t'" "fw_form (form_win t') = fw_form (form_win t)"
    by (simp_all add: tab_inv_def)
qed

lemma on_input_keeps:
  assumes "tab_inv fm t" and "snd (on_input hst k t) = Inr t'"
  shows "tab_inv fm t'" and "k \<noteq> ''^Y'' \<Longrightarrow> fw_form (form_win t') = fw_form (form_win t)"
proof -
  have "tab_inv fm t' \<and> (k \<noteq> ''^Y'' \<longrightarrow> fw_form (form_win t') = fw_form (form_win t))"
  proof (cases "key_func k")
    case None
    with assms in_form_win_keeps [of fm t "FormWin_on_input (editor hst) k" t' "editor hst" k]
    show ?thesis by (simp add: on_input_def)
  next
    case (Some c)
    with assms in_form_win_keeps [of fm t go_to_next_input t']
      in_form_win_keeps [of fm t go_to_previous_input t']
    show ?thesis
      by (cases c)
        (auto simp: on_input_def on_cancel_eq on_send_eq tab_inv_def key_func_def
          split: if_splits)
  qed
  then show "tab_inv fm t'" and "k \<noteq> ''^Y'' \<Longrightarrow> fw_form (form_win t') = fw_form (form_win t)"
    by simp_all
qed

lemma run_keeps:
  assumes "tab_inv fm t" and "snd (run hst op t) = Inr t'"
  shows "tab_inv fm t'" and "op \<noteq> Key ''^Y'' \<Longrightarrow> fw_form (form_win t') = fw_form (form_win t)"
proof -
  have "tab_inv fm t' \<and> (op \<noteq> Key ''^Y'' \<longrightarrow> fw_form (form_win t') = fw_form (form_win t))"
  proof (cases op)
    case (Key k)
    with assms on_input_keeps [of fm t hst k t'] show ?thesis by auto
  next
    case (DoResize sz)
    with assms show ?thesis by (auto simp: DataFormsTab_resize_eq tab_inv_def)
  next
    case (DoRefresh tabs)
    with assms obtain t1 where "snd (in_form_win FormWin_refresh t) = Inr t1" "t' = t1"
      by (auto simp: DataFormsTab_refresh_def bind_Inr_iff)
    with assms(1) in_form_win_keeps [of fm t FormWin_refresh t'] show ?thesis by simp
  qed
  then show "tab_inv fm t'"
    and "op \<noteq> Key ''^Y'' \<Longrightarrow> fw_form (form_win t') = fw_form (form_win t)"
    by simp_all
qed

section \<open>Lemmas: the example and the lock\<close>

lemma example_tab_init: "snd (DataFormsTab_init (24, 80) example_form) = Inr example_tab"
  by (simp add: DataFormsTab_init_result built_example example_tab_def)

lemma sent_example: "sent example_host example_tab = example_reply"
  using committed_example
  by (simp add: sent_def example_host_def example_tab_def committed_def example_win_def)

lemma example_can_reply: "list_all can_reply (inputs (form_win example_tab))"
  using widgets_ok_can_reply [OF example_win_ok(3)] by (simp add: example_tab_def)

lemma disciplined_callbacks [simp]: "disciplined (on_cancel t)" "disciplined (on_send hst t)"
  by (simp_all add: on_cancel_eq on_send_eq)

lemma disciplined_on_input [simp]: "disciplined (on_input hst k t)"
proof (cases "key_func k")
  case None
  then show ?thesis
    by (simp add: on_input_def disciplined_in_form_win FormWin_on_input_def
        disciplined_call_input)
next
  case (Some c)
  then show ?thesis by (cases c) (simp_all add: on_input_def disciplined_in_form_win)
qed

section \<open>Properties of the tab\<close>

text \<open>
  C4.  The key \<^verbatim>\<open>^Y\<close>: \<^verbatim>\<open>on_send\<close> first lets the form object prepare its reply,
  then commits every input with \<^verbatim>\<open>FormWin.reply\<close>, then applies the callback
  \<^verbatim>\<open>on_send\<close> to the form, once, and never \<^verbatim>\<open>on_cancel\<close>.  If some single-choice
  list has no option under its cursor, \<^verbatim>\<open>IndexError\<close> is raised and no callback is
  applied.  When the inputs refer to distinct fields, the form that is sent holds,
  field by field, what \<open>replied_field\<close> says.
\<close>

theorem on_send_sends:
  "on_input hst ''^Y'' t =
     (if list_all can_reply (inputs (form_win t))
      then ([OnSend (sent hst t)], Inr (t\<lparr>form_win := (form_win t)\<lparr>fw_form := sent hst t\<rparr>\<rparr>))
      else ([], Inl IndexError)) \<and>
   (refs_ok ((form_win t)\<lparr>fw_form := form_reply hst (fw_form (form_win t))\<rparr>) \<longrightarrow>
    (\<forall>r. field_at (sent hst t) r =
       replied_field ((form_win t)\<lparr>fw_form := form_reply hst (fw_form (form_win t))\<rparr>) r))"
  by (simp add: on_input_def on_send_eq) (simp add: sent_def committed_field)

theorem on_send_sends_witness:
  "snd (DataFormsTab_init (24, 80) example_form) = Inr example_tab \<and>
   on_input example_host ''^Y'' example_tab =
     ([OnSend example_reply],
      Inr (example_tab\<lparr>form_win := (form_win example_tab)\<lparr>fw_form := example_reply\<rparr>\<rparr>))"
proof -
  from on_send_sends [of example_host example_tab] show ?thesis
    by (simp add: example_tab_init sent_example example_can_reply)
qed

text \<open>
  C8.  Every state of a tab made for a form satisfies the invariant of the tab: the
  focus index is in range, the cursor of every list input is clamped into its
  options, there is one input per visible field of the form, in the order of the
  fields, and the dummies are the inputs of the fixed fields.
\<close>

theorem reachable_inv:
  assumes "reachable hst fm t"
  shows "tab_inv fm t"
  using assms
proof (induction rule: reachable.induct)
  case (start sz t)
  then show ?case by (rule DataFormsTab_init_inv)
next
  case (step t op t')
  then show ?case by (auto dest: run_keeps(1))
qed

theorem reachable_inv_witness:
  "reachable example_host example_form
     (example_tab\<lparr>form_win := (form_win example_tab)\<lparr>fw_form := example_reply\<rparr>\<rparr>) \<and>
   tab_inv example_form
     (example_tab\<lparr>form_win := (form_win example_tab)\<lparr>fw_form := example_reply\<rparr>\<rparr>)"
proof -
  let ?t = "example_tab\<lparr>form_win := (form_win example_tab)\<lparr>fw_form := example_reply\<rparr>\<rparr>"
  have "reachable example_host example_form example_tab"
    by (rule reachable.start) (rule example_tab_init)
  moreover have "snd (run example_host (Key ''^Y'') example_tab) = Inr ?t"
    by (simp add: on_input_def on_send_eq sent_example example_can_reply)
  ultimately have "reachable example_host example_form ?t" by (rule reachable.step)
  with reachable_inv [of example_host example_form ?t] show ?thesis by simp
qed

text \<open>
  C16.  As long as the key \<^verbatim>\<open>^Y\<close> has not been pressed, the form of the tab is the
  form it was made for, with the value of each field of an unknown type replaced by
  the name of the type; this is the form that the key \<^verbatim>\<open>^G\<close> passes to the
  callback \<^verbatim>\<open>on_cancel\<close>, which it applies once, without changing the tab.
\<close>

theorem cancel_passes_form:
  assumes "snd (DataFormsTab_init sz fm) = Inr t0" and "Key ''^Y'' \<notin> set ops"
    and "snd (io_fold (run hst) ops t0) = Inr t"
  shows "on_input hst ''^G'' t = ([OnCancel (normalise fm)], Inr t)"
proof -
  let ?P = "\<lambda>t. tab_inv fm t \<and> fw_form (form_win t) = normalise fm"
  have "?P t"
  proof (rule io_fold_invariant [where P = ?P, OF _ _ assms(3)])
    show "?P t0" using assms(1) by (simp add: DataFormsTab_init_inv)
    show "?P s'" if "op \<in> set ops" "?P s" "snd (run hst op s) = Inr s'" for op s s'
      using that assms(2) run_keeps [of fm s hst op s'] by auto
  qed
  then show ?thesis by (simp add: on_input_def on_cancel_eq)
qed

theorem cancel_passes_form_witness:
  "snd (DataFormsTab_init (24, 80) example_form) = Inr example_tab \<and>
   on_input example_host ''^G'' example_tab = ([OnCancel example_form], Inr example_tab)"
  using cancel_passes_form [of "(24, 80)" example_form example_tab "[]" example_host example_tab]
  by (simp add: example_tab_init normalise_example)

text \<open>
  C39.  Whatever the state and the key, every curses call that \<^verbatim>\<open>on_input\<close> and
  \<^verbatim>\<open>refresh\<close> of the tab make is made while the lock is held, and the lock is free
  again when they return or raise.
\<close>

theorem tab_draws_locked:
  "disciplined (on_input hst k t) \<and> disciplined (DataFormsTab_refresh tabs t)"
proof -
  have "disciplined (DataFormsTab_refresh tabs t)"
    unfolding DataFormsTab_refresh_def
    by (intro disciplined_bind disciplined_in_form_win) (simp_all add: emit_def)
  then show ?thesis by simp
qed


end
