(* ===== verification/Session.thy ===== *)
theory Session
  imports DataFormsTab
begin

text \<open>
  The session of a tab, from the constructor to the callback: what stays the same
  of every input whatever the application does (its class, its field, its label and
  the values of its options), and what follows for a form whose list fields have
  options.

  \<open>shape\<close> collects what no operation changes of an input, \<open>shape_for\<close> says what
  the constructor makes it for a field of the form, and \<open>session_inv\<close> is the
  invariant of the tab strengthened by it.  \<open>well_formed\<close> is the condition that the
  data model puts on a form; on such a form every input of every state can be drawn
  and can reply.  \<open>typed_answer\<close> is the type of the answer a field admits,
  \<open>type_keys\<close> what the line editor makes of a text input, and \<open>survey_form\<close> a
  form with one field of each kind, used where a theorem is applied to a concrete
  state.  The lemmas carry the properties of a whole session that the root theory
  states.
\<close>

section \<open>What no operation changes\<close>

fun kind_of :: "input \<Rightarrow> input_class" where
  "kind_of (DummyInput d) = CDummyInput"
| "kind_of (BooleanWin b) = CBooleanWin"
| "kind_of (ListMultiWin m) = CListMultiWin"
| "kind_of (ListSingleWin s) = CListSingleWin"
| "kind_of (TextSingleWin t) = CTextSingleWin"
| "kind_of (TextPrivateWin t) = CTextPrivateWin"

fun option_values :: "input \<Rightarrow> string list" where
  "option_values (ListMultiWin m) = map (o_value \<circ> fst) (lm_options m)"
| "option_values (ListSingleWin s) = map o_value (ls_options s)"
| "option_values w = []"

type_synonym shape = "pyval \<times> string \<times> input_class \<times> field_ref \<times> string list"

definition shape :: "entry \<Rightarrow> shape" where
  "shape inp =
     (e_label inp, e_instructions inp, kind_of (e_input inp), fld (e_input inp),
      option_values (e_input inp))"

definition is_list_class :: "input_class \<Rightarrow> bool" where
  "is_list_class c \<longleftrightarrow> c = CListMultiWin \<or> c = CListSingleWin"

definition shape_for :: "form \<Rightarrow> field_ref \<Rightarrow> shape" where
  "shape_for fm r =
     (let f = norm_field (field_at fm r) in
      (if f_type f = ''fixed'' then f_value f else PStr (f_label f),
       f_instructions f, class_of (f_type f), r,
       if is_list_class (class_of (f_type f)) then map o_value (f_options f) else []))"

definition session_inv :: "form \<Rightarrow> tab \<Rightarrow> bool" where
  "session_inv fm t \<longleftrightarrow>
     tab_inv fm t \<and> map shape (inputs (form_win t)) = map (shape_for fm) (visible fm)"

section \<open>Forms that meet the data model\<close>

text \<open>
  A visible list field has at least one option, and the value of a multiple-choice
  field is a string or a list of strings.
\<close>

definition field_ok :: "field \<Rightarrow> bool" where
  "field_ok f \<longleftrightarrow>
     (is_list_class (class_of (f_type f)) \<longrightarrow> f_options f \<noteq> []) \<and> \<not> uniterable f"

definition well_formed :: "form \<Rightarrow> bool" where
  "well_formed fm \<longleftrightarrow> list_all (\<lambda>r. field_ok (field_at fm r)) (visible fm)"

text \<open>
  The answers that a field admits: a boolean for a boolean field, values of its
  options for a list field, a string for a text field, nothing for a fixed field.
\<close>

definition typed_answer :: "field \<Rightarrow> pyval \<Rightarrow> bool" where
  "typed_answer f v \<longleftrightarrow>
     (case class_of (f_type f) of
        CBooleanWin \<Rightarrow> (case v of PBool b \<Rightarrow> True | _ \<Rightarrow> False)
      | CListMultiWin \<Rightarrow>
          (case v of PList xs \<Rightarrow> set xs \<subseteq> o_value ` set (f_options f) | _ \<Rightarrow> False)
      | CListSingleWin \<Rightarrow>
          (case v of PStr x \<Rightarrow> x \<in> o_value ` set (f_options f) | _ \<Rightarrow> False)
      | CDummyInput \<Rightarrow> False
      | CTextSingleWin \<Rightarrow> is_str v
      | CTextPrivateWin \<Rightarrow> is_str v)"

section \<open>What the host and the labels must keep\<close>

text \<open>
  \<open>field_types\<close> are the types of the fields of a form, in order.  A host
  \<open>keeps_types\<close> when the method \<^verbatim>\<open>reply\<close> of its form object leaves them alone, and a
  form is \<open>labelled\<close> when the value of every visible fixed field, which becomes
  the label of its input, is a string.
\<close>

definition field_types :: "form \<Rightarrow> string list" where
  "field_types fm = map (f_type \<circ> snd) (fm_fields fm)"

definition keeps_types :: "host \<Rightarrow> bool" where
  "keeps_types hst \<longleftrightarrow> (\<forall>fm. field_types (form_reply hst fm) = field_types fm)"

definition labelled :: "form \<Rightarrow> bool" where
  "labelled fm \<longleftrightarrow>
     list_all (\<lambda>r. f_type (field_at fm r) = ''fixed'' \<longrightarrow> is_str (f_value (field_at fm r)))
       (visible fm)"

section \<open>Typing into a text input\<close>

text \<open>
  \<open>type_keys ed ks w\<close> is the text input \<open>w\<close> after the line editor \<open>ed\<close> has
  handled the keys \<open>ks\<close>, and \<open>text_of\<close> the text and cursor of a text input.
  \<open>typing_host\<close> is a host whose line editor appends the key to the text.
\<close>

fun type_keys :: "line_editor \<Rightarrow> key list \<Rightarrow> input \<Rightarrow> input" where
  "type_keys ed ks (TextSingleWin t) =
     TextSingleWin (t\<lparr>ts_text := fst (fold ed ks (ts_text t, ts_pos t)),
                      ts_pos := snd (fold ed ks (ts_text t, ts_pos t))\<rparr>)"
| "type_keys ed ks (TextPrivateWin t) =
     TextPrivateWin (t\<lparr>ts_text := fst (fold ed ks (ts_text t, ts_pos t)),
                       ts_pos := snd (fold ed ks (ts_text t, ts_pos t))\<rparr>)"
| "type_keys ed ks w = w"

definition is_text :: "input \<Rightarrow> bool" where
  "is_text w \<longleftrightarrow> kind_of w = CTextSingleWin \<or> kind_of w = CTextPrivateWin"

fun text_of :: "input \<Rightarrow> string \<times> int" where
  "text_of (TextSingleWin t) = (ts_text t, ts_pos t)"
| "text_of (TextPrivateWin t) = (ts_text t, ts_pos t)"
| "text_of w = ([], 0)"

definition typing_host :: host where
  "typing_host = \<lparr>editor = (\<lambda>k s. (fst s @ k, snd s + 1)), form_reply = (\<lambda>fm. fm)\<rparr>"

section \<open>A second example\<close>

text \<open>
  A form with a text field, a fixed field, a single-choice list, a multiple-choice
  list and a boolean, and the tab the constructor makes for it on a screen of 24 by
  80.
\<close>

definition choice :: "string \<Rightarrow> form_option" where
  "choice v = \<lparr>o_value = v, o_label = v\<rparr>"

definition survey_form :: form where
  "survey_form =
     \<lparr>fm_title = ''Survey'', fm_instructions = [],
      fm_fields =
        [(''name'', mk_field ''text-single'' (PStr ''ann'')),
         (''part'', mk_field ''fixed'' (PStr ''Choices'')),
         (''colour'', (mk_field ''list-single'' (PStr ''green''))
            \<lparr>f_options := [choice ''red'', choice ''green'']\<rparr>),
         (''days'', (mk_field ''list-multi'' (PList [''sat'']))
            \<lparr>f_options := [choice ''sat'', choice ''sun'']\<rparr>),
         (''news'', mk_field ''boolean'' (PBool True))]\<rparr>"

definition survey_inputs :: "input list" where
  "survey_inputs =
     [text_input 0 ''ann'', dummy_input 1,
      ListSingleWin \<lparr>fi_field = 2, color = unfocused, width = 0,
        ls_options = [choice ''red'', choice ''green''], ls_val_pos = 1\<rparr>,
      ListMultiWin \<lparr>fi_field = 3, color = unfocused, width = 0,
        lm_options = [(choice ''sat'', True), (choice ''sun'', False)], lm_val_pos = 0\<rparr>,
      BooleanWin \<lparr>fi_field = 4, color = unfocused, width = 0,
        bw_last_key = KEY_RIGHT, bw_value = True\<rparr>]"

definition survey_tab :: tab where
  "survey_tab =
     \<lparr>form_win =
        \<lparr>fw_form = survey_form, current_input = 0,
         inputs = map2 (\<lambda>l w. \<lparr>e_label = PStr l, e_instructions = [], e_input = w\<rparr>)
                    [''label'', ''Choices'', ''label'', ''label'', ''label''] survey_inputs,
         fw_height = 21, fw_width = 80\<rparr>,
      tab_height = 24, tab_width = 80, lines = []\<rparr>"

section \<open>Lemmas: shapes\<close>

lemma kind_of_look [simp]:
  "kind_of (upd_color c w) = kind_of w" "kind_of (upd_width n w) = kind_of w"
  "option_values (upd_color c w) = option_values w"
  "option_values (upd_width n w) = option_values w"
  by (cases w; simp)+

lemma shape_plain: "map shape (plain inps) = map shape inps"
  by (simp add: plain_def shape_def)

lemma plain_shapes: "plain inps' = plain inps \<Longrightarrow> map shape inps' = map shape inps"
  using shape_plain [of inps] shape_plain [of inps'] by simp

lemma toggle_at_fst: "toggle_at os i = Inr os' \<Longrightarrow> map (f \<circ> fst) os' = map (f \<circ> fst) os"
  by (auto simp: toggle_at_def map_update list_update_same_conv dest!: py_index_less
      split: sum.splits)

lemma do_command_shape:
  assumes "snd (do_command ed k w) = Inr w'"
  shows "kind_of w' = kind_of w" and "option_values w' = option_values w"
  using assms
  by (cases w; auto simp: do_command_defs io_simps Let_def split: sum.splits if_splits
      dest: toggle_at_fst [where f = o_value])+

lemma put_input_shape:
  assumes "k < length (inputs fw)" and "kind_of w = kind_of (e_input (inputs fw ! k))"
    and "fld w = fld (e_input (inputs fw ! k))"
    and "option_values w = option_values (e_input (inputs fw ! k))"
  shows "map shape (inputs (put_input k w fw)) = map shape (inputs fw)"
  using assms by (auto simp: put_input_def shape_def nth_list_update intro!: nth_equalityI)

lemma FormWin_on_input_shape:
  assumes "focus_ok fw" and "snd (FormWin_on_input ed k fw) = Inr fw'"
  shows "map shape (inputs fw') = map shape (inputs fw)"
  using assms
proof (cases rule: FormWin_on_input_cases)
  case none
  then show ?thesis by simp
next
  case (some w)
  from some(3) do_command_shape [OF some(1)] do_command_attrs(1) [OF some(1)]
  show ?thesis unfolding some(2) by (intro put_input_shape) (simp_all add: input_at_def)
qed

lemma form_win_shape:
  assumes "focus_ok fw"
    and "snd (go_to_next_input fw) = Inr fw' \<or> snd (go_to_previous_input fw) = Inr fw' \<or>
         snd (FormWin_on_input ed k fw) = Inr fw' \<or> snd (FormWin_refresh fw) = Inr fw'"
  shows "map shape (inputs fw') = map shape (inputs fw)"
proof -
  from assms(2) consider
    (move) "snd (go_to_next_input fw) = Inr fw' \<or> snd (go_to_previous_input fw) = Inr fw'"
    | (key) "snd (FormWin_on_input ed k fw) = Inr fw'" | (draw) "snd (FormWin_refresh fw) = Inr fw'"
    by blast
  then show ?thesis
  proof cases
    case move
    from moves_frame(3) [OF assms(1) move] show ?thesis by (intro plain_shapes uncolor_plain)
  next
    case key
    with assms(1) show ?thesis by (rule FormWin_on_input_shape)
  next
    case draw
    from FormWin_refresh_look [OF draw] show ?thesis
      by (intro plain_shapes) (simp add: same_but_look_def)
  qed
qed

lemma on_input_shape:
  assumes "tab_inv fm t" and "snd (on_input hst k t) = Inr t'"
  shows "map shape (inputs (form_win t')) = map shape (inputs (form_win t))"
proof -
  from assms(1) have f: "focus_ok (form_win t)" by (simp add: tab_inv_def form_win_inv_def)
  show ?thesis
  proof (cases "key_func k")
    case None
    with assms(2) form_win_shape [OF f, of _ "editor hst" k] show ?thesis
      by (auto simp: on_input_def in_form_win_Inr)
  next
    case (Some c)
    with assms(2) form_win_shape [OF f] show ?thesis
      by (cases c)
        (auto simp: on_input_def on_cancel_eq on_send_eq in_form_win_Inr split: if_splits)
  qed
qed

lemma run_shape:
  assumes "tab_inv fm t" and "snd (run hst op t) = Inr t'"
  shows "map shape (inputs (form_win t')) = map shape (inputs (form_win t))"
proof (cases op)
  case (Key k)
  with assms show ?thesis by (auto dest: on_input_shape)
next
  case (DoResize sz)
  with assms show ?thesis by (auto simp: DataFormsTab_resize_eq)
next
  case (DoRefresh tabs)
  from assms(1) have "focus_ok (form_win t)" by (simp add: tab_inv_def form_win_inv_def)
  with DoRefresh assms(2) form_win_shape [of "form_win t"] show ?thesis
    by (auto simp: DataFormsTab_refresh_def bind_Inr_iff in_form_win_Inr)
qed

section \<open>Lemmas: the shapes the constructor makes\<close>

lemma new_input_shape:
  assumes "new_input c r f = Inr w"
  shows "kind_of w = c"
    and "option_values w = (if is_list_class c then map o_value (f_options f) else [])"
proof -
  note defs = form_defs TextSingleWin_init_def ListSingleWin_init_def ListMultiWin_init_eq
    is_list_class_def comp_def
  from assms show "kind_of w = c" by (cases c) (auto simp: defs split: if_splits)
  from assms show "option_values w = (if is_list_class c then map o_value (f_options f) else [])"
    by (cases c) (auto simp: defs split: if_splits)
qed

lemma make_entry_shape: "make_entry fm r = Inr e \<Longrightarrow> shape e = shape_for fm r"
  by (auto simp: make_entry_def shape_def shape_for_def Let_def map_sum_def form_defs
      split: sum.splits dest: new_input_shape new_input_Inr(1))

lemma built_shape:
  assumes "built fm = Inr fw"
  shows "map shape (inputs fw) = map (shape_for fm) (visible fm)"
proof -
  from assms have es: "io_map (make_entry fm) (visible fm) = Inr (inputs fw)"
    by (auto simp: built_def map_sum_def split: sum.splits)
  show ?thesis
  proof (rule nth_equalityI)
    from es show "length (map shape (inputs fw)) = length (map (shape_for fm) (visible fm))"
      by (simp add: io_map_Inr_length)
    fix i assume "i < length (map shape (inputs fw))"
    with es io_map_Inr_nth [OF es, of i]
    show "map shape (inputs fw) ! i = map (shape_for fm) (visible fm) ! i"
      by (simp add: io_map_Inr_length make_entry_shape)
  qed
qed

section \<open>Lemmas: the invariant of the session\<close>

lemma init_session_inv:
  assumes "snd (DataFormsTab_init sz fm) = Inr t"
  shows "session_inv fm t"
proof -
  from assms obtain fw where "built fm = Inr fw"
    and "inputs (form_win t) = inputs fw"
    by (auto simp: DataFormsTab_init_result map_sum_def split: sum.splits)
  with DataFormsTab_init_inv(1) [OF assms] show ?thesis
    by (simp add: session_inv_def built_shape)
qed

lemma run_session_inv:
  assumes "session_inv fm t" and "snd (run hst op t) = Inr t'"
  shows "session_inv fm t'"
  using assms run_keeps(1) [of fm t hst op t'] run_shape [of fm t hst op t']
  by (simp add: session_inv_def)

lemma reachable_session_inv: "reachable hst fm t \<Longrightarrow> session_inv fm t"
  by (induction rule: reachable.induct) (auto intro: init_session_inv run_session_inv)

lemma session_inv_nth:
  assumes "session_inv fm t" and "i < length (inputs (form_win t))"
  shows "i < length (visible fm)"
    and "shape (inputs (form_win t) ! i) = shape_for fm (visible fm ! i)"
    and "input_inv (e_input (inputs (form_win t) ! i))"
proof -
  from assms(1) have eq: "map shape (inputs (form_win t)) = map (shape_for fm) (visible fm)"
    and inv: "inputs_inv (form_win t)"
    by (simp_all add: session_inv_def tab_inv_def form_win_inv_def)
  from eq have len: "length (inputs (form_win t)) = length (visible fm)"
    by (rule map_eq_imp_length_eq)
  with assms(2) show "i < length (visible fm)" by simp
  from eq assms(2) len show "shape (inputs (form_win t) ! i) = shape_for fm (visible fm ! i)"
    by (metis nth_map)
  from inv assms(2) show "input_inv (e_input (inputs (form_win t) ! i))"
    by (simp add: inputs_inv_def list_all_length)
qed

section \<open>Lemmas: well-formed forms\<close>

lemma class_of_single_iff: "class_of ty = CListSingleWin \<longleftrightarrow> ty = ''list-single''"
  by (cases "known_type ty") (auto simp: known_type_iff class_of_unknown)

lemma well_formed_built: "well_formed fm \<Longrightarrow> \<exists>fw. built fm = Inr fw"
  using built_fails_iff [of fm]
  by (cases "built fm") (auto simp: well_formed_def field_ok_def list_all_iff)

lemma listy_renderable:
  assumes "input_inv w" and "is_list_class (kind_of w) \<longrightarrow> option_values w \<noteq> []"
  shows "renderable w"
  using assms
  by (cases w) (auto simp: is_list_class_def cursor_ok_def index_ok_def)

lemma session_widgets_ok:
  assumes "session_inv fm t" and "well_formed fm"
  shows "widgets_ok (form_win t)"
proof -
  have "input_inv (e_input (inputs (form_win t) ! i)) \<and>
      renderable (e_input (inputs (form_win t) ! i))"
    if "i < length (inputs (form_win t))" for i
  proof -
    note n = session_inv_nth [OF assms(1) that]
    from assms(2) n(1) have "field_ok (field_at fm (visible fm ! i))"
      by (simp add: well_formed_def list_all_length)
    with n(2) have "is_list_class (kind_of (e_input (inputs (form_win t) ! i))) \<longrightarrow>
        option_values (e_input (inputs (form_win t) ! i)) \<noteq> []"
      by (auto simp: shape_def shape_for_def Let_def field_ok_def)
    with n(3) show ?thesis by (simp add: listy_renderable)
  qed
  then show ?thesis by (simp add: widgets_ok_def list_all_length)
qed

section \<open>Lemmas: the answers\<close>

lemma answer_typed:
  assumes "answer w = Inr v" and "kind_of w = class_of (f_type f)"
    and "is_list_class (kind_of w) \<longrightarrow> option_values w = map o_value (f_options f)"
  shows "typed_answer f v"
proof (cases w)
  case (ListMultiWin m)
  with assms have "v = PList (map (o_value \<circ> fst) (filter snd (lm_options m)))"
    and "map (o_value \<circ> fst) (lm_options m) = map o_value (f_options f)"
    by (auto simp: is_list_class_def)
  moreover have "set (map (o_value \<circ> fst) (filter snd (lm_options m))) \<subseteq>
      set (map (o_value \<circ> fst) (lm_options m))"
    by auto
  ultimately show ?thesis using assms(2) ListMultiWin
    by (simp add: typed_answer_def del: set_map) simp
next
  case (ListSingleWin ls)
  with assms obtain p where "py_get (ls_options ls) (ls_val_pos ls) = Inr p" "v = PStr (o_value p)"
    and "map o_value (ls_options ls) = map o_value (f_options f)"
    by (auto simp: is_list_class_def map_sum_def split: sum.splits)
  moreover from this(1) have "o_value p \<in> set (map o_value (ls_options ls))"
    by (auto dest: py_get_Inr_mem)
  ultimately show ?thesis using assms(2) ListSingleWin
    by (simp add: typed_answer_def del: set_map) simp
qed (insert assms, auto simp: typed_answer_def)

lemma answer_fails:
  assumes "answer w = Inl e" and "input_inv w"
  shows "kind_of w = CDummyInput \<or> kind_of w = CListSingleWin \<and> option_values w = []"
proof (cases w)
  case (ListSingleWin ls)
  with assms have "\<not> index_ok (ls_options ls) (ls_val_pos ls)"
    by (auto simp: map_sum_def py_get_fails_iff [symmetric] split: sum.splits dest: py_get_error)
  with assms(2) ListSingleWin show ?thesis by (simp add: cursor_ok_index_ok)
qed (insert assms, auto)

section \<open>Lemmas: repeated moves forward\<close>

lemma advance_reaches:
  assumes "0 \<le> current_input fw" and "current_input fw < k"
    and "k < int (length (inputs fw))" and "\<not> dummies (inputs fw) ! nat k"
  shows "\<exists>n. 0 < n \<and> n \<le> nat (k - current_input fw) \<and>
    current_input ((advance ^^ n) fw) = k \<and> inputs ((advance ^^ n) fw) \<noteq> [] \<and>
    color_of (input_at ((advance ^^ n) fw) k) = focused"
  using assms
proof (induction "nat (k - current_input fw)" arbitrary: fw rule: less_induct)
  case less
  let ?c = "current_input fw" and ?ds = "dummies (inputs fw)"
  let ?k = "next_focus ?ds ?c"
  from less.prems have c: "0 \<le> ?c" "?c < int (length ?ds) - 1" by simp_all
  note range = next_focus_range [OF c]
  from less.prems(2,4) next_focus_between [OF c, of k] have le: "?k \<le> k" by fastforce
  show ?case
  proof (cases "?k = k")
    case True
    with less.prems c have "current_input (advance fw) = k \<and> inputs (advance fw) \<noteq> [] \<and>
        color_of (input_at (advance fw) k) = focused"
      by (auto simp: advance_def Let_def input_at_def recolor_def next_focus_def)
    with less.prems(2) show ?thesis by (intro exI [of _ 1]) simp
  next
    case False
    with le range c(1) have "nat (k - current_input (advance fw)) < nat (k - ?c)"
      and "0 \<le> current_input (advance fw)" and "current_input (advance fw) < k"
      by (simp_all add: advance_current)
    from less.hyps [OF this(1) this(2,3)] less.prems(3,4)
    obtain n where n: "0 < n" "n \<le> nat (k - current_input (advance fw))"
      "current_input ((advance ^^ n) (advance fw)) = k"
      "inputs ((advance ^^ n) (advance fw)) \<noteq> []"
      "color_of (input_at ((advance ^^ n) (advance fw)) k) = focused"
      by auto
    with range have "Suc n \<le> nat (k - ?c)" by (simp add: advance_current)
    with n(3-5) show ?thesis by (intro exI [of _ "Suc n"]) (simp add: funpow_swap1)
  qed
qed

lemma presses_down:
  assumes "focus_ok (form_win t)" and "widgets_ok (form_win t)"
  shows "snd (io_fold (run hst) (replicate n (Key KEY_DOWN)) t) =
     Inr (t\<lparr>form_win := (advance ^^ n) (form_win t)\<rparr>)"
  using assms
proof (induction n arbitrary: t)
  case 0
  show ?case by simp
next
  case (Suc n)
  from Suc.prems have "snd (run hst (Key KEY_DOWN) t) = Inr (t\<lparr>form_win := advance (form_win t)\<rparr>)"
    by (simp add: on_input_def in_form_win_simps moves_ok)
  moreover from Suc.prems
  have "snd (io_fold (run hst) (replicate n (Key KEY_DOWN)) (t\<lparr>form_win := advance (form_win t)\<rparr>)) =
      Inr (t\<lparr>form_win := (advance ^^ n) (advance (form_win t))\<rparr>)"
    using Suc.IH [of "t\<lparr>form_win := advance (form_win t)\<rparr>"] by (simp add: advance_focus_ok)
  ultimately show ?case by (simp add: snd_bind funpow_swap1)
qed

section \<open>Lemmas: the second example\<close>

lemma survey_visible: "visible survey_form = [0, 1, 2, 3, 4]"
  by (simp add: visible_def shown_def survey_form_def mk_field_def field_at_def upt_rec)

lemma survey_well_formed: "well_formed survey_form"
  unfolding well_formed_def survey_visible
  by (simp add: field_ok_def uniterable_def is_list_class_def survey_form_def mk_field_def
      field_at_def)

lemma survey_tab_init: "snd (DataFormsTab_init (24, 80) survey_form) = Inr survey_tab"
  unfolding DataFormsTab_init_result built_def survey_visible
  by (simp add: make_entry_def norm_field_def known_type_iff normalise_def survey_form_def
      mk_field_def field_at_def form_defs survey_tab_def survey_inputs_def text_input_def
      dummy_input_def choice_def TextSingleWin_init_def ListSingleWin_init_def
      ListMultiWin_init_eq Let_def)

section \<open>Lemmas: the types of the fields\<close>

lemma field_types_nth:
  "r < length (fm_fields fm) \<Longrightarrow> f_type (field_at fm r) = field_types fm ! r"
  by (simp add: field_types_def field_at_def)

lemma visible_cong:
  assumes "field_types fm' = field_types fm"
  shows "visible fm' = visible fm"
proof -
  from assms have len: "length (fm_fields fm') = length (fm_fields fm)"
    by (auto simp: field_types_def dest: map_eq_imp_length_eq)
  with assms show ?thesis
    unfolding visible_def shown_def by (auto intro!: filter_cong simp: field_types_nth)
qed

lemma field_types_upd_field:
  assumes "\<And>f. f_type (g f) = f_type f"
  shows "field_types (upd_field r g fm) = field_types fm"
proof (cases "r < length (fm_fields fm)")
  case True
  with assms show ?thesis
    by (simp add: field_types_def upd_field_def map_update list_update_same_conv)
next
  case False
  then show ?thesis by (simp add: field_types_def upd_field_def list_update_beyond)
qed

lemma field_types_update [simp]:
  "field_types (fm\<lparr>fm_title := a\<rparr>) = field_types fm"
  "field_types (fm\<lparr>fm_instructions := b\<rparr>) = field_types fm"
  by (simp_all add: field_types_def)

lemma field_types_commit_entry [simp]: "field_types (commit_entry inp fm) = field_types fm"
  by (auto simp: commit_entry_def answered_def field_types_upd_field split: sum.splits)

lemma field_types_fold_commit [simp]:
  "field_types (fold commit_entry inps fm) = field_types fm"
  by (induction inps arbitrary: fm) simp_all

lemma field_types_committed [simp]: "field_types (committed fw) = field_types (fw_form fw)"
  by (simp add: committed_def)

lemma field_types_normalise [simp]: "field_types (normalise fm) = field_types fm"
  by (simp add: field_types_def normalise_def norm_field_def form_defs comp_def)

lemma on_input_types:
  assumes "keeps_types hst" and "tab_inv fm t" and "snd (on_input hst k t) = Inr t'"
  shows "field_types (fw_form (form_win t')) = field_types (fw_form (form_win t))"
proof (cases "k = ''^Y''")
  case True
  from assms(1) have "field_types (form_reply hst x) = field_types x" for x
    by (simp add: keeps_types_def)
  with True assms(3) show ?thesis
    by (auto simp: on_input_def on_send_eq sent_def split: if_splits)
next
  case False
  with on_input_keeps(2) [OF assms(2,3)] show ?thesis by simp
qed

lemma run_types:
  assumes "keeps_types hst" and "tab_inv fm t" and "snd (run hst op t) = Inr t'"
  shows "field_types (fw_form (form_win t')) = field_types (fw_form (form_win t))"
proof (cases "op = Key ''^Y''")
  case True
  with assms on_input_types [of hst fm t "''^Y''" t'] show ?thesis by simp
next
  case False
  with run_keeps(2) [OF assms(2,3)] show ?thesis by simp
qed

lemma reachable_types:
  assumes "keeps_types hst" and "reachable hst fm t"
  shows "field_types (fw_form (form_win t)) = field_types fm"
  using assms(2)
proof (induction rule: reachable.induct)
  case (start sz t)
  then show ?case by (simp add: DataFormsTab_init_inv(2))
next
  case (step t op t')
  with run_types [OF assms(1) _ step.hyps(2), of fm] reachable_session_inv [OF step.hyps(1)]
  show ?case by (simp add: session_inv_def)
qed

lemma session_attached:
  assumes "session_inv fm t" and "field_types (fw_form (form_win t)) = field_types fm"
  shows "attached (form_win t)"
proof -
  from assms(1) have "length (inputs (form_win t)) = length (visible fm)"
    by (auto simp: session_inv_def dest: map_eq_imp_length_eq)
  with visible_cong [OF assms(2)] show ?thesis by (simp add: attached_def)
qed

lemma session_labels_ok:
  assumes "session_inv fm t" and "labelled fm"
  shows "labels_ok (form_win t)"
proof -
  have "is_str (e_label (inputs (form_win t) ! i))" if "i < length (inputs (form_win t))" for i
  proof -
    let ?f = "field_at fm (visible fm ! i)"
    note n = session_inv_nth [OF assms(1) that]
    from n(2) have "e_label (inputs (form_win t) ! i) =
        (if f_type ?f = ''fixed'' then f_value (norm_field ?f) else PStr (f_label ?f))"
      by (simp add: shape_def shape_for_def Let_def)
    moreover have "norm_field ?f = ?f" if "f_type ?f = ''fixed''"
      using that by (simp add: norm_field_def known_type_iff)
    moreover from assms(2) n(1) have "f_type ?f = ''fixed'' \<longrightarrow> is_str (f_value ?f)"
      by (simp add: labelled_def list_all_length)
    ultimately show ?thesis by simp
  qed
  then show ?thesis by (simp add: labels_ok_def list_all_length)
qed

section \<open>Lemmas: the keys that raise\<close>

lemma FormWin_on_input_raises:
  assumes "focus_ok fw" and "widgets_ok fw"
  shows "snd (FormWin_on_input ed k fw) = Inl e \<longleftrightarrow>
     e = TypeError \<and> inputs fw \<noteq> [] \<and> is_dummy (input_at fw (current_input fw))"
proof (cases "inputs fw = []")
  case True
  then show ?thesis by (simp add: FormWin_on_input_def)
next
  case False
  let ?c = "current_input fw"
  from False assms(1) have c: "0 \<le> ?c" "?c < int (length (inputs fw))"
    using focus_ok_range [of fw] by simp_all
  show ?thesis
  proof (cases "is_dummy (input_at fw ?c)")
    case True
    with False c show ?thesis
      by (auto simp: FormWin_on_input_def call_input_in_range snd_bind raise_def)
  next
    case nd: False
    from c assms(2) have "renderable (input_at fw ?c)" "input_inv (input_at fw ?c)"
      by (simp_all add: widgets_ok_def list_all_length input_at_def)
    with nd obtain w' where "snd (do_command ed k (input_at fw ?c)) = Inr w'"
      using do_command_returns [of "input_at fw ?c" ed k] by blast
    with False c nd show ?thesis
      by (simp add: FormWin_on_input_def call_input_in_range snd_bind)
  qed
qed

lemma key_func_Some_iff:
  "key_func k = Some c \<longleftrightarrow>
     k = KEY_UP \<and> c = GoToPreviousInput \<or> k = KEY_DOWN \<and> c = GoToNextInput \<or>
     k = ''^G'' \<and> c = OnCancelCommand \<or> k = ''^Y'' \<and> c = OnSendCommand"
  by (auto simp: key_func_def split: if_splits)

lemma retreat_raises:
  assumes "focus_ok fw"
  shows "retreat fw = Inl e \<longleftrightarrow>
     e = IndexError \<and> 0 < current_input fw \<and>
     skip_fwd (dummies (inputs fw)) (current_input fw - 1) \<le> current_input fw - 1 \<and>
     int (length (inputs fw)) \<le>
       current_input fw - 1 + skip_fwd (dummies (inputs fw)) (current_input fw - 1)"
proof (cases "inputs fw = []")
  case True
  with assms show ?thesis by (auto simp: retreat_def focus_ok_def cursor_ok_def)
next
  case False
  with focus_ok_range [OF assms] show ?thesis by (auto simp: retreat_def Let_def)
qed

lemma survey_labelled: "labelled survey_form"
  unfolding labelled_def survey_visible
  by (simp add: survey_form_def mk_field_def field_at_def)

lemma example_keeps_types: "keeps_types example_host"
  by (simp add: keeps_types_def example_host_def)

section \<open>Lemmas: typing and sending\<close>

lemma type_keys_Nil [simp]: "type_keys ed [] w = w"
  by (cases w) simp_all

lemma type_keys_Cons: "type_keys ed (k # ks) w = type_keys ed ks (type_keys ed [k] w)"
  by (cases w) simp_all

lemma type_keys_attrs [simp]:
  "kind_of (type_keys ed ks w) = kind_of w" "fld (type_keys ed ks w) = fld w"
  "is_text (type_keys ed ks w) = is_text w"
  by (cases w; simp add: is_text_def)+

lemma type_keys_answer:
  "is_text w \<Longrightarrow> answer (type_keys ed ks w) = Inr (PStr (fst (fold ed ks (text_of w))))"
  by (cases w) (simp_all add: is_text_def)

lemma do_command_text:
  "is_text w \<Longrightarrow> snd (do_command ed k w) = Inr (type_keys ed [k] w)"
  by (cases w) (simp_all add: is_text_def TextSingleWin_do_command_def snd_bind)

lemma put_input_twice [simp]: "put_input k w' (put_input k w fw) = put_input k w' fw"
  by (cases "k < length (inputs fw)") (simp_all add: put_input_def list_update_beyond)

lemma input_at_put_input:
  "0 \<le> c \<Longrightarrow> c < int (length (inputs fw)) \<Longrightarrow> input_at (put_input (nat c) w fw) c = w"
  by (simp add: input_at_def put_input_def)

lemma on_input_text:
  assumes "key_func k = None" and "0 \<le> current_input (form_win t)"
    and "current_input (form_win t) < int (length (inputs (form_win t)))"
    and "is_text (input_at (form_win t) (current_input (form_win t)))"
  shows "snd (on_input hst k t) =
     Inr (t\<lparr>form_win := put_input (nat (current_input (form_win t)))
            (type_keys (editor hst) [k] (input_at (form_win t) (current_input (form_win t))))
            (form_win t)\<rparr>)"
  using assms
  by (auto simp: on_input_def in_form_win_simps FormWin_on_input_def call_input_in_range
      snd_bind do_command_text put_input_def input_at_def)

lemma keys_text:
  assumes "\<forall>k \<in> set ks. key_func k = None" and "0 \<le> current_input (form_win t)"
    and "current_input (form_win t) < int (length (inputs (form_win t)))"
    and "is_text (input_at (form_win t) (current_input (form_win t)))"
  shows "snd (io_fold (run hst) (map Key ks) t) =
     Inr (t\<lparr>form_win := put_input (nat (current_input (form_win t)))
            (type_keys (editor hst) ks (input_at (form_win t) (current_input (form_win t))))
            (form_win t)\<rparr>)"
  using assms
proof (induction ks arbitrary: t)
  case Nil
  then show ?case by (simp add: put_input_def input_at_def)
next
  case (Cons k ks)
  let ?c = "current_input (form_win t)"
  let ?t = "t\<lparr>form_win := put_input (nat ?c)
      (type_keys (editor hst) [k] (input_at (form_win t) ?c)) (form_win t)\<rparr>"
  from Cons.prems have 1: "snd (on_input hst k t) = Inr ?t" by (intro on_input_text) simp_all
  from Cons.prems have "snd (io_fold (run hst) (map Key ks) ?t) =
      Inr (?t\<lparr>form_win := put_input (nat (current_input (form_win ?t)))
        (type_keys (editor hst) ks (input_at (form_win ?t) (current_input (form_win ?t))))
        (form_win ?t)\<rparr>)"
    by (intro Cons.IH) (simp_all add: input_at_put_input)
  with 1 Cons.prems show ?case
    by (simp add: snd_bind input_at_put_input type_keys_Cons [of _ k ks])
qed

lemma reachable_io_fold:
  assumes "reachable hst fm t" and "snd (io_fold (run hst) ops t) = Inr t'"
  shows "reachable hst fm t'"
  by (rule io_fold_invariant [where P = "reachable hst fm", OF _ assms])
    (rule reachable.step)

lemma session_refs_ok:
  assumes "session_inv fm t" and "field_types fm' = field_types fm"
  shows "refs_ok ((form_win t)\<lparr>fw_form := fm'\<rparr>)"
proof -
  from assms(1) have r: "refs (form_win t) = visible fm"
    by (simp add: session_inv_def tab_inv_def form_win_inv_def)
  from assms(2) have "length (fm_fields fm') = length (fm_fields fm)"
    by (auto simp: field_types_def dest: map_eq_imp_length_eq)
  then have "list_all (valid_ref fm') (visible fm)"
    by (simp add: list_all_iff valid_ref_def visible_def)
  with r show ?thesis by (simp add: refs_ok_def refs_def visible_def)
qed

lemma sent_value:
  assumes "session_inv fm t" and "field_types (form_reply hst (fw_form (form_win t))) = field_types fm"
    and "i < length (inputs (form_win t))"
    and "answer (e_input (inputs (form_win t) ! i)) = Inr v"
  shows "f_value (field_at (sent hst t) (fld (e_input (inputs (form_win t) ! i)))) = v"
proof -
  let ?fw = "(form_win t)\<lparr>fw_form := form_reply hst (fw_form (form_win t))\<rparr>"
  let ?inp = "inputs (form_win t) ! i"
  note ok = session_refs_ok [OF assms(1,2)]
  then have "distinct (map (fld \<circ> e_input) (inputs (form_win t)))"
    by (simp add: refs_ok_def refs_def)
  with assms(3) have "find (\<lambda>a. fld (e_input a) = fld (e_input ?inp)) (inputs (form_win t)) =
      Some ?inp"
    by (intro find_ref) simp_all
  with assms(4) committed_field [OF ok, of "fld (e_input ?inp)"] show ?thesis
    by (simp add: sent_def replied_field_def answered_def)
qed

section \<open>Lemmas: refresh in a session\<close>

lemma tab_refresh_result:
  assumes "well_formed fm" and "labelled fm" and "keeps_types hst" and "reachable hst fm t"
  shows "snd (DataFormsTab_refresh tabs t) =
     (if tabs = [] \<or> visible fm = [] then Inl IndexError
      else Inr (t\<lparr>form_win := refreshed (form_win t)\<rparr>))"
proof -
  note inv = reachable_session_inv [OF assms(4)]
  then have f: "focus_ok (form_win t)" by (simp add: session_inv_def tab_inv_def form_win_inv_def)
  from inv assms(1) have w: "widgets_ok (form_win t)" by (rule session_widgets_ok)
  from inv have len: "length (inputs (form_win t)) = length (visible fm)"
    by (auto simp: session_inv_def dest: map_eq_imp_length_eq)
  note a = session_attached [OF inv reachable_types [OF assms(3,4)]]
  note l = session_labels_ok [OF inv assms(2)]
  from len have "snd (FormWin_refresh (form_win t)) =
      (if visible fm = [] then Inl IndexError else Inr (refreshed (form_win t)))"
    by (auto simp: FormWin_refresh_result [OF a l f] widgets_ok_all_renderable [OF w])
  then show ?thesis
    by (cases tabs)
      (simp_all add: DataFormsTab_refresh_def snd_bind in_form_win_simps py_get_def py_index_def)
qed

end
