(* ===== verification/Form_Session.thy ===== *)
theory Form_Session
  imports Session
begin

text \<open>
  The form session of the specification (sections 3 and 4) as a state machine of its
  own, and the tab of \<^verbatim>\<open>src/src/data_forms.py\<close> as an implementation of it.

  A \<open>widget\<close> is the edit state of one field without its window, its colour and its
  field: \<open>applyKey\<close> and \<open>replyValue\<close> are the contract of section 4.1 for each of
  the variants of sections 4.2 to 4.7.  \<open>advance_focus\<close> and \<open>retreat_focus\<close> are the
  two transitions of the focus controller of section 4.8, the second the mirror image
  of the first.  A \<open>session\<close> is the list of widgets and the focus index;
  \<open>session_key\<close> is what a key does to it and \<open>initial\<close> the session of a form.

  \<open>session_of\<close> abstracts a tab to a session.  A form is \<open>conforming\<close> when it
  meets the data model and its fixed fields stand alone (\<open>spaced\<close>): the first and
  the last visible field are not fixed and no two fixed fields are adjacent.  On such
  a form the tab simulates the session: every key returns, and \<open>session_of\<close> maps
  the step of the tab to the step of the session; a resize returns and a refresh
  that is \<open>runnable\<close> returns, and neither changes the session; the answers that \<^verbatim>\<open>on_send\<close> gets
  are the answers of the widgets of the session, and every widget that is not inert
  can get the focus.  On every other form that has a field which is not fixed, some
  sequence of keys puts the focus on a fixed field, which the session never does.
\<close>

section \<open>The widgets of the specification\<close>

datatype widget =
    DummyWidget
  | BooleanWidget bool key
  | ListMultiWidget "(string \<times> bool) list" int
  | ListSingleWidget "string list" int
  | TextWidget bool string int

fun isInert :: "widget \<Rightarrow> bool" where
  "isInert DummyWidget = True"
| "isInert w = False"

text \<open>A position moved by a key stays between 0 and the last index.\<close>

definition clamp :: "nat \<Rightarrow> int \<Rightarrow> int" where
  "clamp n p = max 0 (min (int n - 1) p)"

definition flip_at :: "int \<Rightarrow> ('a \<times> bool) list \<Rightarrow> ('a \<times> bool) list" where
  "flip_at p os = os[nat p := (fst (os ! nat p), \<not> snd (os ! nat p))]"

fun applyKey :: "line_editor \<Rightarrow> key \<Rightarrow> widget \<Rightarrow> widget" where
  "applyKey ed k DummyWidget = DummyWidget"
| "applyKey ed k (BooleanWidget v d) =
     (if k = KEY_LEFT \<or> k = KEY_RIGHT then BooleanWidget (\<not> v) k else BooleanWidget v d)"
| "applyKey ed k (ListMultiWidget os p) =
     (if k = KEY_LEFT then ListMultiWidget os (clamp (length os) (p - 1))
      else if k = KEY_RIGHT then ListMultiWidget os (clamp (length os) (p + 1))
      else if k = '' '' then ListMultiWidget (flip_at p os) p
      else ListMultiWidget os p)"
| "applyKey ed k (ListSingleWidget os p) =
     (if k = KEY_LEFT then ListSingleWidget os (clamp (length os) (p - 1))
      else if k = KEY_RIGHT then ListSingleWidget os (clamp (length os) (p + 1))
      else ListSingleWidget os p)"
| "applyKey ed k (TextWidget m s p) = TextWidget m (fst (ed k (s, p))) (snd (ed k (s, p)))"

text \<open>The answer that \<^verbatim>\<open>reply\<close> commits; a dummy and a list without options have none.\<close>

fun replyValue :: "widget \<Rightarrow> pyval option" where
  "replyValue DummyWidget = None"
| "replyValue (BooleanWidget v d) = Some (PBool v)"
| "replyValue (ListMultiWidget os p) = Some (PList (map fst (filter snd os)))"
| "replyValue (ListSingleWidget os p) = (if os = [] then None else Some (PStr (os ! nat p)))"
| "replyValue (TextWidget m s p) = Some (PStr s)"

text \<open>The widget of a field (sections 4.2 to 4.7).\<close>

definition chosen :: "pyval \<Rightarrow> string \<Rightarrow> bool" where
  "chosen v x = (case v of PList xs \<Rightarrow> x \<in> set xs | _ \<Rightarrow> False)"

definition position_of :: "pyval \<Rightarrow> string list \<Rightarrow> int" where
  "position_of v xs =
     (case v of
        PStr x \<Rightarrow> if x \<in> set xs then int (length (takeWhile (\<lambda>y. y \<noteq> x) xs)) else 0
      | _ \<Rightarrow> 0)"

definition widget_for :: "field \<Rightarrow> widget" where
  "widget_for f =
     (let t = f_type f; v = f_value f; text = str_or_empty v in
      if t = ''fixed'' then DummyWidget
      else if t = ''boolean'' then BooleanWidget (py_bool v) KEY_RIGHT
      else if t = ''list-multi''
        then ListMultiWidget (map (\<lambda>option. (o_value option, chosen v (o_value option))) (f_options f)) 0
      else if t = ''list-single''
        then ListSingleWidget (map o_value (f_options f)) (position_of v (map o_value (f_options f)))
      else if t = ''text-private'' then TextWidget True text (int (length text))
      else if t = ''text-single'' \<or> t = ''jid-single'' then TextWidget False text (int (length text))
      else TextWidget False t (int (length t)))"

section \<open>The focus controller of the specification\<close>

text \<open>
  \<open>advance_focus ds c\<close>: the first widget after \<open>c\<close> that is not inert, and \<open>c\<close>
  itself when there is none.  \<open>initial_focus\<close>: the first widget that is not inert.
\<close>

definition advance_focus :: "bool list \<Rightarrow> int \<Rightarrow> int" where
  "advance_focus ds c =
     (if ds = [] \<or> c = int (length ds) - 1 then c
      else let k = c + 1 + skip_fwd ds (c + 1)
           in if k < int (length ds) then k else c)"

definition retreat_focus :: "bool list \<Rightarrow> int \<Rightarrow> int" where
  "retreat_focus ds c = int (length ds) - 1 - advance_focus (rev ds) (int (length ds) - 1 - c)"

definition initial_focus :: "bool list \<Rightarrow> int" where
  "initial_focus ds = (if list_all id ds then 0 else skip_fwd ds 0)"

section \<open>The session\<close>

record session =
  widgets :: "widget list"
  focus :: int

definition inert :: "session \<Rightarrow> bool list" where
  "inert s = map isInert (widgets s)"

definition session_key :: "line_editor \<Rightarrow> key \<Rightarrow> session \<Rightarrow> session" where
  "session_key ed k s =
     (if k = KEY_DOWN then s\<lparr>focus := advance_focus (inert s) (focus s)\<rparr>
      else if k = KEY_UP then s\<lparr>focus := retreat_focus (inert s) (focus s)\<rparr>
      else if k = ''^G'' \<or> k = ''^Y'' then s
      else s\<lparr>widgets := (widgets s)[nat (focus s) := applyKey ed k (widgets s ! nat (focus s))]\<rparr>)"

fun session_run :: "line_editor \<Rightarrow> operation \<Rightarrow> session \<Rightarrow> session" where
  "session_run ed (Key k) s = session_key ed k s"
| "session_run ed (DoResize sz) s = s"
| "session_run ed (DoRefresh tabs) s = s"

text \<open>The keys among the operations of the application.\<close>

fun keys_of :: "operation list \<Rightarrow> key list" where
  "keys_of [] = []"
| "keys_of (Key k # ops) = k # keys_of ops"
| "keys_of (op # ops) = keys_of ops"

text \<open>
  The operations that can be carried out on a tab made for the form \<open>fm\<close>: a
  refresh needs the name of a tab, an input to give the focused colour to, and
  labels that can be written.
\<close>

fun runnable :: "form \<Rightarrow> operation \<Rightarrow> bool" where
  "runnable fm (DoRefresh tabs) \<longleftrightarrow> tabs \<noteq> [] \<and> visible fm \<noteq> [] \<and> labelled fm"
| "runnable fm op \<longleftrightarrow> True"

definition initial :: "form \<Rightarrow> session" where
  "initial fm =
     (let ws = map (\<lambda>r. widget_for (field_at fm r)) (visible fm)
      in \<lparr>widgets = ws, focus = initial_focus (map isInert ws)\<rparr>)"

text \<open>
  The invariant of the focus controller (section 3): the focus is on a widget that
  is not inert, unless there is no widget or every widget is inert.
\<close>

definition focus_sound :: "session \<Rightarrow> bool" where
  "focus_sound s \<longleftrightarrow>
     widgets s = [] \<or> list_all isInert (widgets s) \<or>
     0 \<le> focus s \<and> focus s < int (length (widgets s)) \<and> \<not> isInert (widgets s ! nat (focus s))"

section \<open>The tab as a session\<close>

fun widget_of :: "input \<Rightarrow> widget" where
  "widget_of (DummyInput d) = DummyWidget"
| "widget_of (BooleanWin b) = BooleanWidget (bw_value b) (bw_last_key b)"
| "widget_of (ListMultiWin m) =
     ListMultiWidget (map (\<lambda>option. (o_value (fst option), snd option)) (lm_options m)) (lm_val_pos m)"
| "widget_of (ListSingleWin s) = ListSingleWidget (map o_value (ls_options s)) (ls_val_pos s)"
| "widget_of (TextSingleWin t) = TextWidget False (ts_text t) (ts_pos t)"
| "widget_of (TextPrivateWin t) = TextWidget True (ts_text t) (ts_pos t)"

definition session_of :: "tab \<Rightarrow> session" where
  "session_of t =
     \<lparr>widgets = map (widget_of \<circ> e_input) (inputs (form_win t)),
      focus = current_input (form_win t)\<rparr>"

section \<open>Conforming forms\<close>

text \<open>
  \<open>apart\<close>: no two adjacent flags are set.  \<open>fixed_flags\<close> marks the visible fields
  that are fixed.  A field conforms when the value of a multiple-choice list is a
  list and the options of a single-choice list have different values.
\<close>

fun apart :: "bool list \<Rightarrow> bool" where
  "apart (a # b # ds) \<longleftrightarrow> \<not> (a \<and> b) \<and> apart (b # ds)"
| "apart ds \<longleftrightarrow> True"

definition spaced :: "bool list \<Rightarrow> bool" where
  "spaced ds \<longleftrightarrow> ds = [] \<or> \<not> hd ds \<and> \<not> last ds \<and> apart ds"

definition fixed_flags :: "form \<Rightarrow> bool list" where
  "fixed_flags fm = map (\<lambda>r. f_type (field_at fm r) = ''fixed'') (visible fm)"

definition field_conforms :: "field \<Rightarrow> bool" where
  "field_conforms f \<longleftrightarrow>
     (f_type f = ''list-multi'' \<longrightarrow> (case f_value f of PList xs \<Rightarrow> True | _ \<Rightarrow> False)) \<and>
     (f_type f = ''list-single'' \<longrightarrow> distinct (map o_value (f_options f)))"

definition conforming :: "form \<Rightarrow> bool" where
  "conforming fm \<longleftrightarrow>
     well_formed fm \<and> spaced (fixed_flags fm) \<and>
     list_all (\<lambda>r. field_conforms (field_at fm r)) (visible fm)"

section \<open>Lemmas: widgets\<close>

lemma widget_of_look [simp]:
  "widget_of (upd_color c w) = widget_of w" "widget_of (upd_width n w) = widget_of w"
  by (cases w; simp)+

lemma isInert_widget_of [simp]: "isInert (widget_of w) = is_dummy w"
  by (cases w) simp_all

lemma clamp_left: "cursor_ok xs p \<Longrightarrow> clamp (length xs) (p - 1) = (if 0 < p then p - 1 else p)"
  by (auto simp: clamp_def cursor_ok_def)

lemma clamp_right:
  "cursor_ok xs p \<Longrightarrow> clamp (length xs) (p + 1) = (if p < int (length xs) - 1 then p + 1 else p)"
  by (auto simp: clamp_def cursor_ok_def)

lemma applyKey_refines:
  assumes "input_inv w" and "snd (do_command ed k w) = Inr w'"
  shows "widget_of w' = applyKey ed k (widget_of w)"
proof (cases w)
  case (ListMultiWin m)
  with assms show ?thesis
    by (auto simp: ListMultiWin_do_command_def snd_bind bind_Inr_iff Let_def clamp_left [of "lm_options m"]
        clamp_right [of "lm_options m"] flip_at_def toggle_at_def map_update
        py_index_Inr_iff cursor_ok_def split: if_splits sum.splits)
next
  case (ListSingleWin s)
  with assms show ?thesis
    by (auto simp: ListSingleWin_do_command_def bind_Inr_iff Let_def
        clamp_left [of "ls_options s"] clamp_right [of "ls_options s"] split: if_splits)
qed (insert assms, auto simp: form_defs BooleanWin_do_command_def TextSingleWin_do_command_def
    bind_Inr_iff Let_def split: if_splits)

section \<open>Lemmas: the focus on a spaced list\<close>

lemma apart_nth: "apart ds \<Longrightarrow> Suc i < length ds \<Longrightarrow> ds ! i \<Longrightarrow> \<not> ds ! Suc i"
  by (induction ds arbitrary: i rule: apart.induct) (auto simp: nth_Cons split: nat.splits)

lemma apart_iff: "apart ds \<longleftrightarrow> (\<forall>i. Suc i < length ds \<longrightarrow> \<not> (ds ! i \<and> ds ! Suc i))"
proof (induction ds rule: apart.induct)
  case (1 a b ds)
  have "(\<forall>i. Suc i < length (a # b # ds) \<longrightarrow> \<not> ((a # b # ds) ! i \<and> (a # b # ds) ! Suc i)) \<longleftrightarrow>
      \<not> (a \<and> b) \<and> (\<forall>i. Suc i < length (b # ds) \<longrightarrow> \<not> ((b # ds) ! i \<and> (b # ds) ! Suc i))"
    by (auto simp: nth_Cons less_Suc_eq_0_disj split: nat.splits)
  with 1 show ?case by simp
qed simp_all

lemma apart_rev [simp]: "apart (rev ds) = apart ds"
proof -
  have "\<not> (ds ! i \<and> ds ! Suc i)"
    if r: "\<forall>i. Suc i < length ds \<longrightarrow> \<not> (rev ds ! i \<and> rev ds ! Suc i)" and i: "Suc i < length ds"
    for ds :: "bool list" and i
  proof -
    from i have "Suc (length ds - Suc (Suc i)) < length ds" by simp
    with r have "\<not> (rev ds ! (length ds - Suc (Suc i)) \<and> rev ds ! Suc (length ds - Suc (Suc i)))"
      by blast
    with i show ?thesis by (auto simp: rev_nth Suc_diff_Suc)
  qed
  from this [of ds] this [of "rev ds"] show ?thesis by (auto simp: apart_iff)
qed

lemma spaced_rev [simp]: "spaced (rev ds) = spaced ds"
  by (cases "ds = []") (auto simp: spaced_def hd_rev last_rev)

lemma spaced_nth:
  assumes "spaced ds" and "ds \<noteq> []"
  shows "\<not> ds ! 0" and "\<not> ds ! (length ds - 1)"
    and "\<And>i. Suc i < length ds \<Longrightarrow> ds ! i \<Longrightarrow> \<not> ds ! Suc i"
  using assms by (auto simp: spaced_def hd_conv_nth last_conv_nth dest: apart_nth)

lemma advance_focus_spaced:
  assumes "spaced ds" and "0 \<le> c" and "c < int (length ds) - 1"
  shows "advance_focus ds c = (if ds ! nat (c + 1) then c + 2 else c + 1)"
    and "advance_focus ds c < int (length ds)"
    and "\<not> ds ! nat (advance_focus ds c)"
    and "next_focus ds c = advance_focus ds c"
    and "c < advance_focus ds c"
proof -
  from assms have ne: "ds \<noteq> []" by auto
  note sp = spaced_nth [OF assms(1) ne]
  have k: "c + 1 + skip_fwd ds (c + 1) = (if ds ! nat (c + 1) then c + 2 else c + 1) \<and>
      (ds ! nat (c + 1) \<longrightarrow> c + 2 < int (length ds) \<and> \<not> ds ! nat (c + 2))"
  proof (cases "ds ! nat (c + 1)")
    case True
    with sp(2) assms(2,3) have lt: "c + 2 < int (length ds)"
      by (cases "c + 1 = int (length ds) - 1") (auto simp: nat_diff_distrib)
    with sp(3) [of "nat (c + 1)"] True assms(2) have nd: "\<not> ds ! nat (c + 1 + 1)"
      by (simp add: nat_add_distrib)
    from assms(2) lt have "skip_fwd ds (c + 1) = 1" by (intro skip_fwd_1 True nd) simp_all
    with True lt nd show ?thesis by (simp add: add.commute)
  next
    case False
    with assms(2,3) show ?thesis by (simp add: skip_fwd_0)
  qed
  with assms(2,3) ne show a: "advance_focus ds c = (if ds ! nat (c + 1) then c + 2 else c + 1)"
    by (auto simp: advance_focus_def Let_def)
  from k a assms(3) show "advance_focus ds c < int (length ds)" "\<not> ds ! nat (advance_focus ds c)"
    by (auto split: if_splits)
  from k a assms(2,3) show "next_focus ds c = advance_focus ds c"
    by (auto simp: next_focus_cases split: if_splits)
  from a show "c < advance_focus ds c" by simp
qed

lemma retreat_focus_spaced:
  assumes "spaced ds" and "0 < c" and "c < int (length ds)"
  shows "retreat_focus ds c = (if ds ! nat (c - 1) then c - 2 else c - 1)"
proof -
  let ?n = "int (length ds)"
  from assms(2,3) have "rev ds ! nat (?n - 1 - c + 1) = ds ! nat (c - 1)"
    by (simp add: rev_nth nat_diff_distrib)
  with advance_focus_spaced(1) [of "rev ds" "?n - 1 - c"] assms show ?thesis
    by (simp add: retreat_focus_def)
qed

lemma next_focus_spaced:
  assumes "spaced ds" and "cursor_ok ds c"
  shows "next_focus ds c = advance_focus ds c"
proof (cases "ds = [] \<or> c = int (length ds) - 1")
  case True
  then show ?thesis by (auto simp: next_focus_def advance_focus_def)
next
  case False
  with assms(2) have "0 \<le> c" "c < int (length ds) - 1"
    by (auto simp: cursor_ok_def max_def split: if_splits)
  with assms(1) show ?thesis by (rule advance_focus_spaced(4))
qed

lemma skip_back_spaced:
  assumes "spaced ds" and "0 < c" and "c < int (length ds)" and "\<not> ds ! nat c"
  shows "skip_fwd ds (c - 1) = (if ds ! nat (c - 1) then 1 else 0)"
    and "ds ! nat (c - 1) \<Longrightarrow> 1 \<le> c - 1"
proof -
  from assms(2,3) have ne: "ds \<noteq> []" by auto
  from assms(2-4) show "skip_fwd ds (c - 1) = (if ds ! nat (c - 1) then 1 else 0)"
    using skip_fwd_1 [of "c - 1" ds] skip_fwd_0 [of "c - 1" ds] by simp
  from spaced_nth(1) [OF assms(1) ne] assms(2) show "1 \<le> c - 1" if "ds ! nat (c - 1)"
    using that by (cases "c = 1") auto
qed

section \<open>Lemmas: the tab simulates the session\<close>

lemma session_of_simps [simp]:
  "widgets (session_of t) = map (widget_of \<circ> e_input) (inputs (form_win t))"
  "focus (session_of t) = current_input (form_win t)"
  "inert (session_of t) = dummies (inputs (form_win t))"
  by (simp_all add: session_of_def inert_def dummies_def)

lemma widgets_plain: "map (widget_of \<circ> e_input) (plain inps) = map (widget_of \<circ> e_input) inps"
  by (simp add: plain_def)

lemma plain_widgets:
  "plain inps' = plain inps \<Longrightarrow> map (widget_of \<circ> e_input) inps' = map (widget_of \<circ> e_input) inps"
  using widgets_plain [of inps] widgets_plain [of inps'] by simp

lemmas uncolor_widgets = plain_widgets [OF uncolor_plain]

lemma session_eqI:
  "widgets s' = widgets s \<Longrightarrow> focus s' = focus s \<Longrightarrow> (s' :: session) = s"
  by simp

lemma focus_sound_tab:
  assumes "focus_sound (session_of t)" and "spaced (dummies (inputs (form_win t)))"
    and "inputs (form_win t) \<noteq> []"
  shows "0 \<le> current_input (form_win t)"
    and "current_input (form_win t) < int (length (inputs (form_win t)))"
    and "\<not> dummies (inputs (form_win t)) ! nat (current_input (form_win t))"
proof -
  from assms(2,3) have "\<not> dummies (inputs (form_win t)) ! 0" by (intro spaced_nth(1)) simp_all
  with assms(3) have "\<not> list_all isInert (map (widget_of \<circ> e_input) (inputs (form_win t)))"
    by (cases "inputs (form_win t)") (simp_all add: dummies_def)
  with assms(1,3) show "0 \<le> current_input (form_win t)"
    "current_input (form_win t) < int (length (inputs (form_win t)))"
    "\<not> dummies (inputs (form_win t)) ! nat (current_input (form_win t))"
    by (auto simp: focus_sound_def dummies_def nat_less_iff)
qed

lemma down_simulates:
  assumes "focus_ok (form_win t)" and "widgets_ok (form_win t)"
    and "spaced (dummies (inputs (form_win t)))"
  shows "\<exists>t'. snd (on_input hst KEY_DOWN t) = Inr t' \<and>
     session_of t' = session_key ed KEY_DOWN (session_of t)"
proof -
  let ?fw = "form_win t"
  from assms(1) have "cursor_ok (dummies (inputs ?fw)) (current_input ?fw)"
    by (simp add: focus_ok_def cursor_ok_def)
  with assms(3) have "session_of (t\<lparr>form_win := advance ?fw\<rparr>) = session_key ed KEY_DOWN (session_of t)"
    by (intro session_eqI)
      (simp_all add: session_key_def advance_current next_focus_spaced
        uncolor_widgets [OF advance_uncolor])
  with moves_ok(1) [OF assms(1,2)] show ?thesis
    by (simp add: on_input_def in_form_win_simps)
qed

lemma retreat_focus_first [simp]: "retreat_focus ds 0 = 0" "retreat_focus [] c = c"
  by (simp_all add: retreat_focus_def advance_focus_def)

lemma up_simulates:
  assumes "focus_ok (form_win t)" and "widgets_ok (form_win t)"
    and "spaced (dummies (inputs (form_win t)))" and "focus_sound (session_of t)"
  shows "\<exists>t'. snd (on_input hst KEY_UP t) = Inr t' \<and>
     session_of t' = session_key ed KEY_UP (session_of t)"
proof -
  let ?fw = "form_win t"
  let ?ds = "dummies (inputs ?fw)" and ?c = "current_input ?fw"
  have "\<exists>fw'. retreat ?fw = Inr fw' \<and> current_input fw' = retreat_focus ?ds ?c"
  proof (cases "inputs ?fw = [] \<or> ?c = 0")
    case True
    then show ?thesis by (auto simp: retreat_def dummies_def)
  next
    case False
    with focus_sound_tab [OF assms(4,3)] have c: "0 < ?c" "?c < int (length ?ds)" "\<not> ?ds ! nat ?c"
      by simp_all
    note k = skip_back_spaced [OF assms(3) c]
    from False c k have "\<exists>fw'. retreat ?fw = Inr fw' \<and> current_input fw' = ?c - 1 - skip_fwd ?ds (?c - 1)"
      by (intro retreat_moves) (auto split: if_splits)
    with k(1) retreat_focus_spaced [OF assms(3) c(1,2)] show ?thesis by (auto split: if_splits)
  qed
  then obtain fw' where fw': "retreat ?fw = Inr fw'" "current_input fw' = retreat_focus ?ds ?c"
    by blast
  from uncolor_widgets [OF retreat_frame(3) [OF fw'(1) assms(1)]] fw'(2)
  have "session_of (t\<lparr>form_win := fw'\<rparr>) = session_key ed KEY_UP (session_of t)"
    by (intro session_eqI) (simp_all add: session_key_def)
  with moves_ok(2) [OF assms(1,2)] fw'(1) show ?thesis
    by (simp add: on_input_def in_form_win_simps)
qed

lemma map_widget_put_input:
  "k < length (inputs fw) \<Longrightarrow>
   map (widget_of \<circ> e_input) (inputs (put_input k w fw)) =
     (map (widget_of \<circ> e_input) (inputs fw))[k := widget_of w]"
  by (simp add: put_input_def map_update)

lemma edit_simulates:
  assumes "focus_ok (form_win t)" and "widgets_ok (form_win t)"
    and "spaced (dummies (inputs (form_win t)))" and "focus_sound (session_of t)"
    and "key_func k = None"
  shows "\<exists>t'. snd (on_input hst k t) = Inr t' \<and>
     session_of t' = session_key (editor hst) k (session_of t)"
proof (cases "inputs (form_win t) = []")
  case True
  with assms(5) have "snd (on_input hst k t) = Inr t" "session_key (editor hst) k (session_of t) = session_of t"
    by (auto simp: on_input_def in_form_win_simps FormWin_on_input_def session_key_def
        key_func_def session_of_def split: if_splits)
  then show ?thesis by simp
next
  case False
  let ?fw = "form_win t"
  let ?c = "current_input ?fw"
  note c = focus_sound_tab [OF assms(4,3) False]
  from c have nd: "\<not> is_dummy (input_at ?fw ?c)" by (simp add: input_at_def)
  with FormWin_on_input_raises [OF assms(1,2), of "editor hst" k]
  obtain fw' where fw': "snd (FormWin_on_input (editor hst) k ?fw) = Inr fw'"
    by (cases "snd (FormWin_on_input (editor hst) k ?fw)") auto
  with False c obtain w where w: "snd (do_command (editor hst) k (input_at ?fw ?c)) = Inr w"
    "fw' = put_input (nat ?c) w ?fw"
    by (auto simp: FormWin_on_input_def call_input_Inr)
  from assms(2) c have "input_inv (input_at ?fw ?c)"
    by (simp add: widgets_ok_def list_all_length input_at_def)
  from applyKey_refines [OF this w(1)] c w(2) assms(5)
  have "session_of (t\<lparr>form_win := fw'\<rparr>) = session_key (editor hst) k (session_of t)"
    by (intro session_eqI)
      (auto simp: session_key_def map_widget_put_input input_at_def key_func_def
        split: if_splits)
  with fw' assms(5) show ?thesis by (simp add: on_input_def in_form_win_simps)
qed

lemma key_simulates:
  assumes "focus_ok (form_win t)" and "widgets_ok (form_win t)"
    and "spaced (dummies (inputs (form_win t)))" and "focus_sound (session_of t)"
  shows "\<exists>t'. snd (on_input hst k t) = Inr t' \<and>
     session_of t' = session_key (editor hst) k (session_of t)"
proof (cases "key_func k")
  case None
  with assms show ?thesis by (rule edit_simulates)
next
  case (Some c)
  then consider "k = KEY_UP" | "k = KEY_DOWN" | "k = ''^G''" | "k = ''^Y''"
    by (auto simp: key_func_Some_iff)
  then show ?thesis
  proof cases
    case 1
    with up_simulates [OF assms] show ?thesis by simp
  next
    case 2
    with down_simulates [OF assms(1-3)] show ?thesis by simp
  next
    case 3
    then show ?thesis by (simp add: on_input_def on_cancel_eq session_key_def)
  next
    case 4
    with widgets_ok_can_reply [OF assms(2)] show ?thesis
      by (simp add: on_input_def on_send_eq session_key_def session_of_def)
  qed
qed

lemma session_inv_parts:
  assumes "session_inv fm t"
  shows "focus_ok (form_win t)" and "dummies (inputs (form_win t)) = fixed_flags fm"
    and "inputs_inv (form_win t)"
    and "length (inputs (form_win t)) = length (fixed_flags fm)"
  using assms
  by (auto simp: session_inv_def tab_inv_def form_win_inv_def fixed_flags_def
      dest: arg_cong [where f = length])

lemma run_simulates:
  assumes "session_inv fm t" and "well_formed fm" and "spaced (fixed_flags fm)"
    and "focus_sound (session_of t)" and "snd (run hst op t) = Inr t'"
  shows "session_of t' = session_run (editor hst) op (session_of t)"
proof (cases op)
  case (Key k)
  note p = session_inv_parts [OF assms(1)]
  from assms(3) p(2) have "spaced (dummies (inputs (form_win t)))" by simp
  from key_simulates [OF p(1) session_widgets_ok [OF assms(1,2)] this assms(4), of hst k]
  obtain t'' where "snd (on_input hst k t) = Inr t''"
    "session_of t'' = session_key (editor hst) k (session_of t)"
    by blast
  with assms(5) Key show ?thesis by simp
next
  case (DoResize sz)
  with assms(5) show ?thesis by (auto simp: DataFormsTab_resize_eq session_of_def)
next
  case (DoRefresh tabs)
  with assms(5) obtain fw where "snd (FormWin_refresh (form_win t)) = Inr fw"
    and t': "t' = t\<lparr>form_win := fw\<rparr>"
    by (auto simp: DataFormsTab_refresh_def bind_Inr_iff in_form_win_Inr)
  then have "same_but_look (form_win t) fw" by (intro FormWin_refresh_look)
  then have p: "plain (inputs fw) = plain (inputs (form_win t))"
    and "current_input fw = current_input (form_win t)"
    by (simp_all add: same_but_look_def)
  with t' DoRefresh plain_widgets [OF p] show ?thesis by (intro session_eqI) simp_all
qed

section \<open>Lemmas: the invariant of the focus\<close>

lemma isInert_applyKey [simp]: "isInert (applyKey ed k w) = isInert w"
  by (cases w) simp_all

lemma map_isInert_applyKey: "map isInert (ws[n := applyKey ed k (ws ! n)]) = map isInert ws"
  by (induction ws arbitrary: n) (simp_all split: nat.splits)

lemma inert_session_key [simp]: "inert (session_key ed k s) = inert s"
  by (simp add: session_key_def inert_def map_isInert_applyKey)

lemma retreat_focus_free:
  assumes "spaced ds" and "0 < c" and "c < int (length ds)" and "\<not> ds ! nat c"
  shows "0 \<le> retreat_focus ds c \<and> retreat_focus ds c < int (length ds) \<and>
    \<not> ds ! nat (retreat_focus ds c)"
proof (cases "ds ! nat (c - 1)")
  case True
  from assms(2,3) have ne: "ds \<noteq> []" by auto
  from skip_back_spaced(2) [OF assms True] assms(3)
  have i: "Suc (nat (c - 2)) < length ds" "Suc (nat (c - 2)) = nat (c - 1)" "0 \<le> c - 2"
    by simp_all
  from spaced_nth(3) [OF assms(1) ne i(1)] True i(2) have "\<not> ds ! nat (c - 2)" by auto
  with True i(3) assms(3) show ?thesis by (simp add: retreat_focus_spaced [OF assms(1-3)])
next
  case False
  with assms(2,3) show ?thesis by (simp add: retreat_focus_spaced [OF assms(1-3)])
qed

lemma isInert_session_key_nth:
  "isInert (widgets (session_key ed k s) ! n) = isInert (widgets s ! n)"
  by (cases "nat (focus s) < length (widgets s)")
    (simp_all add: session_key_def nth_list_update list_update_beyond)

lemma session_key_focus:
  "focus (session_key ed k s) =
     (if k = KEY_DOWN then advance_focus (inert s) (focus s)
      else if k = KEY_UP then retreat_focus (inert s) (focus s) else focus s)"
  by (simp add: session_key_def)

lemma session_key_sound:
  assumes "spaced (inert s)" and "focus_sound s"
  shows "focus_sound (session_key ed k s)"
proof (cases "widgets s = []")
  case True
  then show ?thesis by (simp add: focus_sound_def session_key_def)
next
  case False
  let ?ds = "inert s" and ?c = "focus s" and ?c' = "focus (session_key ed k s)"
  from False have ne: "?ds \<noteq> []" by (simp add: inert_def)
  from spaced_nth(1) [OF assms(1) ne] False have "\<not> list_all isInert (widgets s)"
    by (cases "widgets s") (simp_all add: inert_def)
  with assms(2) False have c: "0 \<le> ?c" "?c < int (length ?ds)" "\<not> ?ds ! nat ?c"
    by (auto simp: focus_sound_def inert_def nat_less_iff)
  have "0 \<le> ?c' \<and> ?c' < int (length ?ds) \<and> \<not> ?ds ! nat ?c'"
  proof (cases "k = KEY_DOWN \<and> ?c < int (length ?ds) - 1")
    case True
    with advance_focus_spaced(2,3,5) [OF assms(1) c(1), of] c(1) show ?thesis
      by (simp add: session_key_focus)
  next
    case d: False
    show ?thesis
    proof (cases "k = KEY_UP \<and> 0 < ?c")
      case True
      with retreat_focus_free [OF assms(1) _ c(2,3)] show ?thesis by (simp add: session_key_focus)
    next
      case False
      with d c have "?c' = ?c" by (auto simp: session_key_focus advance_focus_def)
      with c show ?thesis by simp
    qed
  qed
  moreover have "length (widgets (session_key ed k s)) = length (widgets s)"
    by (simp add: session_key_def)
  ultimately show ?thesis
    by (auto simp: focus_sound_def inert_def isInert_session_key_nth nat_less_iff)
qed

lemma init_focus_sound:
  assumes "spaced (fixed_flags fm)" and "snd (DataFormsTab_init sz fm) = Inr t"
  shows "focus_sound (session_of t)"
proof (cases "inputs (form_win t) = []")
  case True
  then show ?thesis by (simp add: focus_sound_def)
next
  case False
  from assms(2) obtain fw where b: "built fm = Inr fw"
    and t: "form_win t = fw\<lparr>fw_height := fst sz - 3, fw_width := snd sz\<rparr>"
    by (auto simp: DataFormsTab_init_result map_sum_def split: sum.splits)
  from built_Inr(2,7) [OF b] t have c: "current_input (form_win t) = 0"
    and d: "dummies (inputs (form_win t)) = fixed_flags fm"
    by (simp_all add: fixed_flags_def)
  from d assms(1) have "spaced (dummies (inputs (form_win t)))" by simp
  from spaced_nth(1) [OF this] False c show ?thesis by (simp add: focus_sound_def dummies_def)
qed

lemma reachable_sound:
  assumes "well_formed fm" and "spaced (fixed_flags fm)" and "reachable hst fm t"
  shows "focus_sound (session_of t)"
  using assms(3)
proof induction
  case (start sz t)
  with assms(2) show ?case by (rule init_focus_sound)
next
  case (step t op t')
  note inv = reachable_session_inv [OF step.hyps(1)]
  from assms(2) session_inv_parts(2) [OF inv] have "spaced (inert (session_of t))" by simp
  then have "focus_sound (session_run (editor hst) op (session_of t))"
    using step.IH by (cases op) (simp_all add: session_key_sound)
  with run_simulates [OF inv assms(1,2) step.IH step.hyps(2)] show ?case by simp
qed

section \<open>Lemmas: the session of the form\<close>

lemma position_of_nth:
  assumes "distinct xs" and "k < length xs"
  shows "position_of (PStr (xs ! k)) xs = int k"
proof -
  from assms have "takeWhile (\<lambda>y. y \<noteq> xs ! k) xs = take k xs"
    by (intro takeWhile_eq_take_P_nth) (auto simp: nth_eq_iff_index_eq)
  with assms(2) show ?thesis by (simp add: position_of_def)
qed

lemma find_val_pos_distinct:
  assumes "distinct (map o_value os)"
  shows "find_val_pos v os 0 0 = position_of v (map o_value os)"
proof -
  from find_val_pos_spec [where v = v and os = os and i = 0 and p = 0] consider
    (none) "\<forall>option \<in> set os. \<not> py_eq_str v (o_value option)" "find_val_pos v os 0 0 = 0"
    | (some) k where "k < length os" "find_val_pos v os 0 0 = int k" "py_eq_str v (o_value (os ! k))"
    by auto
  then show ?thesis
  proof cases
    case none
    then show ?thesis by (cases v) (auto simp: position_of_def)
  next
    case some
    from some(3) have "v = PStr (map o_value os ! k)" using some(1) by (cases v) simp_all
    with position_of_nth [OF assms, of k] some(1,2) show ?thesis by simp
  qed
qed

lemma isInert_widget_for [simp]: "isInert (widget_for f) \<longleftrightarrow> f_type f = ''fixed''"
  by (simp add: widget_for_def Let_def)

lemma new_input_widget:
  assumes "new_input (class_of (f_type f)) r (norm_field f) = Inr w" and "field_conforms f"
    and "f_type f \<noteq> ''hidden''"
  shows "widget_of w = widget_for f"
proof (cases "known_type (f_type f)")
  case True
  then consider "f_type f = ''boolean''" | "f_type f = ''fixed''" | "f_type f = ''jid-single''"
    | "f_type f = ''list-multi''" | "f_type f = ''list-single''"
    | "f_type f = ''text-private''" | "f_type f = ''text-single''"
    by (auto simp: known_type_iff)
  then show ?thesis
  proof cases
    case 4
    with assms(2) obtain xs where "f_value f = PList xs"
      by (auto simp: field_conforms_def split: pyval.splits)
    with 4 assms(1) True show ?thesis
      by (auto simp: widget_for_def ListMultiWin_init_eq chosen_def split: if_splits)
  next
    case 5
    with assms(2) have "distinct (map o_value (f_options f))" by (simp add: field_conforms_def)
    with 5 assms(1) True show ?thesis
      by (auto simp: widget_for_def ListSingleWin_init_def form_defs find_val_pos_distinct)
  qed (insert assms(1) True, auto simp: widget_for_def form_defs TextSingleWin_init_def Let_def)
next
  case False
  then have "f_type f \<notin> {''boolean'', ''fixed'', ''jid-single'', ''list-multi'', ''list-single'',
      ''text-private'', ''text-single''}"
    by (simp add: known_type_iff)
  with assms(1,3) False show ?thesis
    by (auto simp: widget_for_def class_of_unknown norm_field_def form_defs
        TextSingleWin_init_def Let_def)
qed

lemma make_entry_widget:
  assumes "make_entry fm r = Inr e" and "field_conforms (field_at fm r)" and "shown fm r"
  shows "widget_of (e_input e) = widget_for (field_at fm r)"
proof -
  from assms(1)
  have "new_input (class_of (f_type (field_at fm r))) r (norm_field (field_at fm r)) = Inr (e_input e)"
    by (auto simp: make_entry_def Let_def map_sum_def split: sum.splits)
  then show ?thesis using assms(2,3) by (intro new_input_widget) (simp_all add: shown_def)
qed

lemma built_widgets:
  assumes "built fm = Inr fw" and "list_all (\<lambda>r. field_conforms (field_at fm r)) (visible fm)"
  shows "map (widget_of \<circ> e_input) (inputs fw) = map (\<lambda>r. widget_for (field_at fm r)) (visible fm)"
proof -
  from assms(1) have es: "io_map (make_entry fm) (visible fm) = Inr (inputs fw)"
    by (auto simp: built_def map_sum_def split: sum.splits)
  have "widget_of (e_input (inputs fw ! i)) = widget_for (field_at fm (visible fm ! i))"
    if "i < length (visible fm)" for i
  proof -
    from that have "visible fm ! i \<in> set (visible fm)" by simp
    then have "shown fm (visible fm ! i)" by (simp add: visible_def)
    with io_map_Inr_nth [OF es that] assms(2) that show ?thesis
      by (intro make_entry_widget) (simp_all add: list_all_length)
  qed
  with io_map_Inr_length [OF es] show ?thesis by (intro nth_equalityI) simp_all
qed

lemma initial_focus_spaced: "spaced ds \<Longrightarrow> initial_focus ds = 0"
  by (cases ds) (auto simp: initial_focus_def spaced_def skip_fwd_def)

lemma init_session:
  assumes "conforming fm" and "snd (DataFormsTab_init sz fm) = Inr t"
  shows "session_of t = initial fm"
proof -
  from assms(2) obtain fw where b: "built fm = Inr fw"
    and t: "form_win t = fw\<lparr>fw_height := fst sz - 3, fw_width := snd sz\<rparr>"
    by (auto simp: DataFormsTab_init_result map_sum_def split: sum.splits)
  from assms(1) have "initial_focus (map isInert (map (\<lambda>r. widget_for (field_at fm r)) (visible fm))) = 0"
    by (intro initial_focus_spaced) (simp add: conforming_def fixed_flags_def comp_def)
  with built_widgets [OF b] built_Inr(2) [OF b] assms(1) t show ?thesis
    by (intro session_eqI) (simp_all add: initial_def Let_def conforming_def)
qed

lemma replyValue_answer:
  assumes "input_inv w"
  shows "replyValue (widget_of w) = (case answer w of Inr v \<Rightarrow> Some v | Inl e \<Rightarrow> None)"
proof (cases w)
  case (ListSingleWin s)
  with assms show ?thesis
    by (cases "ls_options s = []") (auto simp: py_get_def py_index_def cursor_ok_def)
next
  case (ListMultiWin m)
  then show ?thesis by (simp add: filter_map comp_def)
qed simp_all

lemma keys_simulate:
  assumes "well_formed fm" and "spaced (fixed_flags fm)" and "reachable hst fm t"
  shows "\<exists>t'. snd (io_fold (run hst) (map Key ks) t) = Inr t' \<and>
     session_of t' = fold (session_key (editor hst)) ks (session_of t)"
  using assms(3)
proof (induction ks arbitrary: t)
  case Nil
  show ?case by (simp add: ret_def)
next
  case (Cons k ks)
  note inv = reachable_session_inv [OF Cons.prems]
  note p = session_inv_parts [OF inv]
  from assms(2) p(2) have "spaced (dummies (inputs (form_win t)))" by simp
  from key_simulates [OF p(1) session_widgets_ok [OF inv assms(1)] this
      reachable_sound [OF assms(1,2) Cons.prems], of hst k]
  obtain t1 where t1: "snd (on_input hst k t) = Inr t1"
    "session_of t1 = session_key (editor hst) k (session_of t)"
    by blast
  from t1(1) have "reachable hst fm t1" by (intro reachable.step [OF Cons.prems, of "Key k"]) simp
  from Cons.IH [OF this] t1 show ?case by (simp add: snd_bind)
qed

section \<open>Lemmas: forms that are not spaced\<close>

lemma trailing_run:
  assumes "ds \<noteq> []" and "\<not> ds ! 0" and "last ds"
  obtains j where "0 \<le> j" and "j < int (length ds) - 1" and "\<not> ds ! nat j"
    and "\<And>k. j < k \<Longrightarrow> k < int (length ds) \<Longrightarrow> ds ! nat k"
proof -
  let ?P = "\<lambda>n. n < length ds \<and> \<not> ds ! n"
  let ?j = "Greatest ?P"
  from assms(1,2) have 0: "?P 0" by simp
  have b: "y \<le> length ds" if "?P y" for y using that by simp
  from GreatestI_nat [of ?P, OF 0 b] have j: "?j < length ds" "\<not> ds ! ?j" by simp_all
  have top: "ds ! n" if "?j < n" "n < length ds" for n
    using Greatest_le_nat [of ?P n, OF _ b] that by auto
  from assms(1,3) j have "?j \<noteq> length ds - 1" by (auto simp: last_conv_nth)
  with j(1) have "int ?j < int (length ds) - 1" by auto
  moreover have "ds ! nat k" if "int ?j < k" "k < int (length ds)" for k
    using that by (intro top) auto
  ultimately show ?thesis using j(2) by (intro that [of "int ?j"]) simp_all
qed

lemma adjacent_run:
  assumes "\<not> apart ds" and "ds \<noteq> []" and "\<not> last ds"
  obtains j where "2 \<le> j" and "j < int (length ds)" and "\<not> ds ! nat j"
    and "ds ! nat (j - 1)" and "ds ! nat (j - 2)"
proof -
  from assms(1) obtain i where i: "Suc i < length ds" "ds ! i" "ds ! Suc i"
    by (auto simp: apart_iff)
  define c where "c = int i + 1"
  from i have c: "0 < c" "c < int (length ds)" "ds ! nat c" "ds ! nat (c - 1)"
    by (simp_all add: c_def nat_add_distrib)
  let ?j = "c + skip_fwd ds c"
  from c have m: "1 \<le> skip_fwd ds c"
    using skip_fwd_step [of c ds] skip_fwd_nonneg [of ds "c + 1"] by simp
  have run: "ds ! nat k" if "c - 1 \<le> k" "k < ?j" for k
  proof (cases "k = c - 1")
    case True
    with c(4) show ?thesis by simp
  next
    case False
    with that c(1) show ?thesis by (intro skip_fwd_all [of c]) simp_all
  qed
  have "?j < int (length ds)"
  proof (rule ccontr)
    assume "\<not> ?j < int (length ds)"
    with c(2) have "c - 1 \<le> int (length ds) - 1" "int (length ds) - 1 < ?j" by simp_all
    moreover have "nat (int (length ds) - 1) = length ds - 1" by simp
    ultimately show False using run [of "int (length ds) - 1"] assms(2,3)
      by (simp add: last_conv_nth)
  qed
  moreover from this c(1) have "\<not> ds ! nat ?j" by (intro skip_fwd_stop) simp_all
  moreover from m have "ds ! nat (?j - 1)" "ds ! nat (?j - 2)" by (intro run; simp)+
  ultimately show ?thesis using m c(1) by (intro that [of ?j]) simp_all
qed

lemma next_focus_trailing:
  assumes "0 \<le> j" and "j < int (length ds) - 1"
    and "\<And>k. j < k \<Longrightarrow> k < int (length ds) \<Longrightarrow> ds ! nat k"
  shows "next_focus ds j = j + 1"
proof -
  from assms have "j + 1 + skip_fwd ds (j + 1) = int (length ds)"
    by (intro skip_fwd_all_dummies) simp_all
  with assms(1,2) show ?thesis by (simp add: next_focus_cases)
qed

lemma initial_tab:
  assumes "well_formed fm"
  obtains t where "reachable hst fm t" and "current_input (form_win t) = 0"
proof -
  from well_formed_built [OF assms] obtain fw where b: "built fm = Inr fw" by blast
  let ?t = "\<lparr>form_win = fw\<lparr>fw_height := - 3, fw_width := 0\<rparr>, tab_height = 0, tab_width = 0,
    lines = []\<rparr>"
  from b have "snd (DataFormsTab_init (0, 0) fm) = Inr ?t" by (simp add: DataFormsTab_init_result)
  then have "reachable hst fm ?t" by (rule reachable.start)
  moreover from built_Inr(2) [OF b] have "current_input (form_win ?t) = 0" by simp
  ultimately show ?thesis by (rule that)
qed

lemma reach_focus:
  assumes "well_formed fm" and "reachable hst fm t"
    and "0 \<le> current_input (form_win t)" and "current_input (form_win t) \<le> j"
    and "j < int (length (fixed_flags fm))" and "\<not> fixed_flags fm ! nat j"
  obtains t' where "reachable hst fm t'" and "current_input (form_win t') = j"
proof (cases "current_input (form_win t) = j")
  case True
  with assms(2) that show ?thesis by blast
next
  case False
  note inv = reachable_session_inv [OF assms(2)]
  note p = session_inv_parts [OF inv]
  from False assms(3-6) p(2,4) obtain n where n: "current_input ((advance ^^ n) (form_win t)) = j"
    using advance_reaches [of "form_win t" j] by auto
  from presses_down [OF p(1) session_widgets_ok [OF inv assms(1)], of hst n]
  have "reachable hst fm (t\<lparr>form_win := (advance ^^ n) (form_win t)\<rparr>)"
    by (rule reachable_io_fold [OF assms(2)])
  with n show ?thesis by (intro that [of "t\<lparr>form_win := (advance ^^ n) (form_win t)\<rparr>"]) simp_all
qed

lemma down_onto_fixed:
  assumes "well_formed fm" and "reachable hst fm t"
    and "0 \<le> current_input (form_win t)"
    and "current_input (form_win t) < int (length (fixed_flags fm)) - 1"
    and "\<And>k. current_input (form_win t) < k \<Longrightarrow> k < int (length (fixed_flags fm)) \<Longrightarrow>
           fixed_flags fm ! nat k"
  obtains t' where "reachable hst fm t'"
    and "current_input (form_win t') = current_input (form_win t) + 1"
proof -
  note inv = reachable_session_inv [OF assms(2)]
  note p = session_inv_parts [OF inv]
  let ?t' = "t\<lparr>form_win := advance (form_win t)\<rparr>"
  from moves_ok(1) [OF p(1) session_widgets_ok [OF inv assms(1)]]
  have "snd (run hst (Key KEY_DOWN) t) = Inr ?t'" by (simp add: on_input_def in_form_win_simps)
  with assms(2) have "reachable hst fm ?t'" by (rule reachable.step)
  moreover from next_focus_trailing [OF assms(3-5)] p(2)
  have "current_input (form_win ?t') = current_input (form_win t) + 1"
    by (simp add: advance_current)
  ultimately show ?thesis by (rule that)
qed

lemma up_onto_fixed:
  assumes "well_formed fm" and "reachable hst fm t"
    and "2 \<le> current_input (form_win t)"
    and "current_input (form_win t) < int (length (fixed_flags fm))"
    and "\<not> fixed_flags fm ! nat (current_input (form_win t))"
    and "fixed_flags fm ! nat (current_input (form_win t) - 1)"
  obtains t' where "reachable hst fm t'"
    and "current_input (form_win t') = current_input (form_win t) - 2"
proof -
  note inv = reachable_session_inv [OF assms(2)]
  note p = session_inv_parts [OF inv]
  let ?c = "current_input (form_win t)" and ?ds = "dummies (inputs (form_win t))"
  from assms(3-6) p(2) have "skip_fwd ?ds (?c - 1) = 1" by (intro skip_fwd_1) simp_all
  moreover from assms(3,4) p(2) have "inputs (form_win t) \<noteq> []" by (auto simp: dummies_def)
  ultimately obtain fw' where fw': "retreat (form_win t) = Inr fw'" "current_input fw' = ?c - 2"
    using retreat_moves [of "form_win t"] assms(3,4) p(4) by auto
  from moves_ok(2) [OF p(1) session_widgets_ok [OF inv assms(1)]] fw'(1)
  have "snd (run hst (Key KEY_UP) t) = Inr (t\<lparr>form_win := fw'\<rparr>)"
    by (simp add: on_input_def in_form_win_simps)
  with assms(2) have "reachable hst fm (t\<lparr>form_win := fw'\<rparr>)" by (rule reachable.step)
  with fw'(2) show ?thesis by (intro that [of "t\<lparr>form_win := fw'\<rparr>"]) simp_all
qed

lemma all_inert_iff:
  "list_all isInert (map (widget_of \<circ> e_input) inps) \<longleftrightarrow> list_all id (dummies inps)"
  by (induction inps) (simp_all add: dummies_def)

lemma focus_on_fixed:
  assumes "session_inv fm t" and "0 \<le> current_input (form_win t)"
    and "current_input (form_win t) < int (length (fixed_flags fm))"
    and "fixed_flags fm ! nat (current_input (form_win t))"
    and "\<not> list_all id (fixed_flags fm)"
  shows "\<not> focus_sound (session_of t)"
proof -
  note d = session_inv_parts(2) [OF assms(1)] and len = session_inv_parts(4) [OF assms(1)]
  from len assms(2,3) have "inputs (form_win t) \<noteq> []" by auto
  moreover from assms(5) d have "\<not> list_all isInert (map (widget_of \<circ> e_input) (inputs (form_win t)))"
    by (simp add: all_inert_iff)
  moreover from assms(2-4) have "nat (current_input (form_win t)) < length (inputs (form_win t))"
    "dummies (inputs (form_win t)) ! nat (current_input (form_win t))"
    by (simp_all add: d [symmetric] nat_less_iff)
  then have "isInert (map (widget_of \<circ> e_input) (inputs (form_win t)) ! nat (current_input (form_win t)))"
    by simp
  ultimately show ?thesis by (simp add: focus_sound_def)
qed

lemma unsound_state:
  assumes "well_formed fm" and "\<not> spaced (fixed_flags fm)" and "\<not> list_all id (fixed_flags fm)"
  obtains t where "reachable hst fm t" and "\<not> focus_sound (session_of t)"
proof -
  let ?ds = "fixed_flags fm"
  from assms(2) have ne: "?ds \<noteq> []" by (auto simp: spaced_def)
  obtain t0 where t0: "reachable hst fm t0" "current_input (form_win t0) = 0"
    using assms(1) by (rule initial_tab)
  from assms(2) ne consider (first) "?ds ! 0" | (trailing) "\<not> ?ds ! 0" "last ?ds"
    | (pair) "\<not> ?ds ! 0" "\<not> last ?ds" "\<not> apart ?ds"
    by (auto simp: spaced_def hd_conv_nth)
  then obtain t c where t: "reachable hst fm t" "current_input (form_win t) = c"
    and c: "0 \<le> c" "c < int (length ?ds)" "?ds ! nat c"
  proof cases
    case first
    with t0 ne show ?thesis by (intro that [of t0 0]) simp_all
  next
    case trailing
    from trailing_run [OF ne trailing] obtain j where j: "0 \<le> j" "j < int (length ?ds) - 1"
      "\<not> ?ds ! nat j" "\<And>k. j < k \<Longrightarrow> k < int (length ?ds) \<Longrightarrow> ?ds ! nat k"
      by blast
    from t0 j(1-3) obtain t1 where t1: "reachable hst fm t1" "current_input (form_win t1) = j"
      by (auto elim: reach_focus [OF assms(1), of hst t0 j])
    from t1 j obtain t2 where "reachable hst fm t2" "current_input (form_win t2) = j + 1"
      by (auto elim: down_onto_fixed [OF assms(1), of hst t1])
    with j show ?thesis by (intro that [of t2 "j + 1"]) simp_all
  next
    case pair
    from adjacent_run [OF pair(3) ne pair(2)] obtain j where j: "2 \<le> j" "j < int (length ?ds)"
      "\<not> ?ds ! nat j" "?ds ! nat (j - 1)" "?ds ! nat (j - 2)"
      by blast
    from t0 j(1-3) obtain t1 where t1: "reachable hst fm t1" "current_input (form_win t1) = j"
      by (auto elim: reach_focus [OF assms(1), of hst t0 j])
    from t1 j obtain t2 where "reachable hst fm t2" "current_input (form_win t2) = j - 2"
      by (auto elim: up_onto_fixed [OF assms(1), of hst t1])
    with j show ?thesis by (intro that [of t2 "j - 2"]) simp_all
  qed
  from focus_on_fixed [OF reachable_session_inv [OF t(1)]] t(2) c assms(3)
  have "\<not> focus_sound (session_of t)" by simp
  with t(1) show ?thesis by (rule that)
qed

lemma all_fixed_sound:
  assumes "session_inv fm t" and "list_all id (fixed_flags fm)"
  shows "focus_sound (session_of t)"
  using assms session_inv_parts(2) [OF assms(1)] by (simp add: focus_sound_def all_inert_iff)

lemma survey_flags: "fixed_flags survey_form = [False, True, False, False, False]"
  unfolding fixed_flags_def survey_visible by (simp add: survey_form_def mk_field_def field_at_def)

lemma survey_spaced: "spaced (fixed_flags survey_form)"
  by (simp add: survey_flags spaced_def)

lemma survey_conforming: "conforming survey_form"
  unfolding conforming_def survey_visible
  by (simp add: survey_well_formed survey_spaced)
    (simp add: field_conforms_def survey_form_def mk_field_def field_at_def choice_def)

lemma example_flags: "fixed_flags example_form = [True, False]"
  unfolding fixed_flags_def visible_example by (simp add: example_form_def mk_field_def field_at_def)

lemma example_well_formed: "well_formed example_form"
  unfolding well_formed_def visible_example
  by (simp add: field_ok_def uniterable_def is_list_class_def example_form_def mk_field_def
      field_at_def)

lemma fold_session_run: "fold (session_run ed) ops s = fold (session_key ed) (keys_of ops) s"
  by (induction ops arbitrary: s rule: keys_of.induct) simp_all

lemma ops_simulate:
  assumes "well_formed fm" and "spaced (fixed_flags fm)" and "reachable hst fm t"
    and "snd (io_fold (run hst) ops t) = Inr t'"
  shows "session_of t' = fold (session_key (editor hst)) (keys_of ops) (session_of t)"
  using assms(3,4)
proof (induction ops arbitrary: t)
  case Nil
  then show ?case by (simp add: ret_def)
next
  case (Cons op ops)
  from Cons.prems(2) obtain t1 where t1: "snd (run hst op t) = Inr t1"
    "snd (io_fold (run hst) ops t1) = Inr t'"
    by (auto simp: bind_Inr_iff)
  from run_simulates [OF reachable_session_inv [OF Cons.prems(1)] assms(1,2)
      reachable_sound [OF assms(1,2) Cons.prems(1)] t1(1)]
    Cons.IH [OF reachable.step [OF Cons.prems(1) t1(1)] t1(2)]
  show ?case by (simp add: fold_session_run [symmetric])
qed

lemma op_runs:
  assumes "well_formed fm" and "spaced (fixed_flags fm)" and "keeps_types hst"
    and "reachable hst fm t" and "runnable fm op"
  shows "\<exists>t'. snd (run hst op t) = Inr t'"
proof (cases op)
  case (Key k)
  note inv = reachable_session_inv [OF assms(4)]
  note p = session_inv_parts [OF inv]
  from assms(2) p(2) have "spaced (dummies (inputs (form_win t)))" by simp
  from key_simulates [OF p(1) session_widgets_ok [OF inv assms(1)] this
      reachable_sound [OF assms(1,2,4)], of hst k] Key
  show ?thesis by auto
next
  case (DoResize sz)
  then show ?thesis by (simp add: DataFormsTab_resize_eq)
next
  case (DoRefresh tabs)
  with assms(5) tab_refresh_result [OF assms(1) _ assms(3,4), of tabs] show ?thesis by simp
qed

lemma ops_run:
  assumes "well_formed fm" and "spaced (fixed_flags fm)" and "keeps_types hst"
    and "reachable hst fm t" and "list_all (runnable fm) ops"
  shows "\<exists>t'. snd (io_fold (run hst) ops t) = Inr t'"
  using assms(4,5)
proof (induction ops arbitrary: t)
  case Nil
  show ?case by (simp add: ret_def)
next
  case (Cons op ops)
  from op_runs [OF assms(1-3) Cons.prems(1), of op] Cons.prems(2)
  obtain t1 where t1: "snd (run hst op t) = Inr t1" by auto
  from Cons.IH [OF reachable.step [OF Cons.prems(1) t1]] Cons.prems(2) t1 show ?case
    by (simp add: snd_bind)
qed

lemma sent_answer:
  assumes "reachable hst fm t" and "keeps_types hst" and "i < length (visible fm)"
    and "replyValue (widgets (session_of t) ! i) = Some v"
  shows "f_value (field_at (sent hst t) (visible fm ! i)) = v"
proof -
  note inv = reachable_session_inv [OF assms(1)]
  from session_inv_parts(4) [OF inv] assms(3) have i: "i < length (inputs (form_win t))"
    by (simp add: fixed_flags_def)
  let ?w = "e_input (inputs (form_win t) ! i)"
  from session_inv_nth(2) [OF inv i] have f: "fld ?w = visible fm ! i"
    by (simp add: shape_def shape_for_def Let_def)
  from assms(4) i replyValue_answer [OF session_inv_nth(3) [OF inv i]] have "answer ?w = Inr v"
    by (simp split: sum.splits)
  moreover from assms(2) reachable_types [OF assms(2,1)]
  have "field_types (form_reply hst (fw_form (form_win t))) = field_types fm"
    by (simp add: keeps_types_def)
  ultimately show ?thesis using sent_value [OF inv _ i, of hst v] f by simp
qed

section \<open>Lemmas: moving the focus to a widget\<close>

lemma retreat_reaches:
  assumes "spaced ds" and "0 \<le> k" and "k \<le> c" and "c < int (length ds)"
    and "\<not> ds ! nat k" and "\<not> ds ! nat c"
  shows "\<exists>n \<le> nat (c - k). (retreat_focus ds ^^ n) c = k"
proof (rule iterate_reaches [where P = "\<lambda>c. k \<le> c \<and> c < int (length ds) \<and> \<not> ds ! nat c"])
  from assms(3,4,6) show "k \<le> c \<and> c < int (length ds) \<and> \<not> ds ! nat c" by simp
next
  fix c
  assume c: "k \<le> c \<and> c < int (length ds) \<and> \<not> ds ! nat c" and "c \<noteq> k"
  with assms(2) have p: "0 < c" "c < int (length ds)" "\<not> ds ! nat c" "k \<le> c - 1" by simp_all
  from p(4) assms(5) have "k \<le> c - 2" if "ds ! nat (c - 1)" using that by (cases "k = c - 1") auto
  with p(4) retreat_focus_spaced [OF assms(1) p(1,2)] retreat_focus_free [OF assms(1) p(1-3)]
  show "(k \<le> retreat_focus ds c \<and> retreat_focus ds c < int (length ds) \<and>
      \<not> ds ! nat (retreat_focus ds c)) \<and> nat (retreat_focus ds c - k) < nat (c - k)"
    by (auto split: if_splits)
qed

lemma advance_reaches_spaced:
  assumes "spaced ds" and "0 \<le> c" and "c \<le> k" and "k < int (length ds)"
    and "\<not> ds ! nat k" and "\<not> ds ! nat c"
  shows "\<exists>n \<le> nat (k - c). (advance_focus ds ^^ n) c = k"
proof (rule iterate_reaches [where P = "\<lambda>c. 0 \<le> c \<and> c \<le> k \<and> \<not> ds ! nat c"])
  from assms(2,3,6) show "0 \<le> c \<and> c \<le> k \<and> \<not> ds ! nat c" by simp
next
  fix c
  assume c: "0 \<le> c \<and> c \<le> k \<and> \<not> ds ! nat c" and "c \<noteq> k"
  with assms(4) have p: "0 \<le> c" "c < int (length ds) - 1" "c + 1 \<le> k" by simp_all
  from p(3) assms(5) have "c + 2 \<le> k" if "ds ! nat (c + 1)" using that by (cases "k = c + 1") auto
  with p advance_focus_spaced(1,3) [OF assms(1) p(1,2)]
  show "(0 \<le> advance_focus ds c \<and> advance_focus ds c \<le> k \<and> \<not> ds ! nat (advance_focus ds c)) \<and>
      nat (k - advance_focus ds c) < nat (k - c)"
    by (auto split: if_splits)
qed

lemma fold_moves:
  "(session_key ed KEY_DOWN ^^ n) s = s\<lparr>focus := (advance_focus (inert s) ^^ n) (focus s)\<rparr>"
  "(session_key ed KEY_UP ^^ n) s = s\<lparr>focus := (retreat_focus (inert s) ^^ n) (focus s)\<rparr>"
  by (induction n) (simp_all add: session_key_def inert_def)

lemma presses_reach:
  assumes "spaced (inert s)" and "focus_sound s" and "k < length (widgets s)"
    and "\<not> isInert (widgets s ! k)"
  shows "\<exists>n key. n \<le> length (widgets s) \<and> (key = KEY_UP \<or> key = KEY_DOWN) \<and>
     fold (session_key ed) (replicate n key) s = s\<lparr>focus := int k\<rparr>"
proof -
  let ?ds = "inert s" and ?c = "focus s"
  from assms(3,4) have k: "int k < int (length ?ds)" "\<not> ?ds ! nat (int k)" by (simp_all add: inert_def)
  from assms(3) have ne: "?ds \<noteq> []" by (auto simp: inert_def)
  from spaced_nth(1) [OF assms(1) ne] assms(3) have "\<not> list_all isInert (widgets s)"
    by (cases "widgets s") (simp_all add: inert_def)
  with assms(2,3) have c: "0 \<le> ?c" "?c < int (length ?ds)" "\<not> ?ds ! nat ?c"
    by (auto simp: focus_sound_def inert_def nat_less_iff)
  show ?thesis
  proof (cases "int k \<le> ?c")
    case True
    from c(2) have "nat (?c - int k) \<le> length (widgets s)" by (simp add: inert_def)
    with retreat_reaches [OF assms(1) _ True c(2) k(2) c(3)]
    obtain n where "n \<le> length (widgets s)" "(retreat_focus ?ds ^^ n) ?c = int k"
      by (auto intro: le_trans)
    then show ?thesis by (intro exI [of _ n] exI [of _ KEY_UP]) (simp add: fold_moves)
  next
    case False
    from c(1) k(1) have "nat (int k - ?c) \<le> length (widgets s)" by (simp add: inert_def)
    with False advance_reaches_spaced [OF assms(1) c(1) _ k c(3)]
    obtain n where "n \<le> length (widgets s)" "(advance_focus ?ds ^^ n) ?c = int k"
      by (auto intro: le_trans)
    then show ?thesis by (intro exI [of _ n] exI [of _ KEY_DOWN]) (simp add: fold_moves)
  qed
qed

section \<open>Properties of the session\<close>

text \<open>
  C2.  On a form that meets the data model and whose fixed fields stand alone (the
  first and the last visible field are not fixed and no two fixed fields are
  adjacent), the tab simulates the session of the specification: in every state the
  tab can reach, every key returns and takes the tab to a state whose session is the
  session \<open>session_key\<close> gives (\<^verbatim>\<open>KEY_DOWN\<close> and \<^verbatim>\<open>KEY_UP\<close> move the focus to the
  next and the previous widget that is not inert, \<^verbatim>\<open>^G\<close> and \<^verbatim>\<open>^Y\<close> leave the
  session alone, every other key is applied to the focused widget); resizes and
  refreshes may be interleaved with the keys in any way, the session after a
  sequence of operations that returns is the session of its keys alone; and the
  focus is on a widget that is not inert.
\<close>

theorem tab_simulates_session:
  assumes "well_formed fm" and "spaced (fixed_flags fm)" and "reachable hst fm t"
  shows "(\<exists>t'. snd (on_input hst k t) = Inr t' \<and>
            session_of t' = session_key (editor hst) k (session_of t)) \<and>
    (\<forall>ops t'. snd (io_fold (run hst) ops t) = Inr t' \<longrightarrow>
       session_of t' = fold (session_key (editor hst)) (keys_of ops) (session_of t)) \<and>
    focus_sound (session_of t)"
proof -
  note inv = reachable_session_inv [OF assms(3)] and s = reachable_sound [OF assms]
  note p = session_inv_parts [OF inv]
  from assms(2) p(2) have "spaced (dummies (inputs (form_win t)))" by simp
  from key_simulates [OF p(1) session_widgets_ok [OF inv assms(1)] this s] s
    ops_simulate [OF assms]
  show ?thesis by blast
qed

theorem tab_simulates_session_witness:
  "well_formed survey_form \<and> spaced (fixed_flags survey_form) \<and>
   reachable example_host survey_form survey_tab \<and>
   (\<exists>t'. snd (on_input example_host KEY_DOWN survey_tab) = Inr t' \<and> focus (session_of t') = 2)"
proof -
  have r: "reachable example_host survey_form survey_tab"
    by (rule reachable.start) (rule survey_tab_init)
  have "inert (session_of survey_tab) = [False, True, False, False, False]"
    by (simp add: survey_tab_def survey_inputs_def dummies_def text_input_def dummy_input_def)
  then have k: "focus (session_key (editor example_host) KEY_DOWN (session_of survey_tab)) = 2"
    by (simp add: session_key_focus advance_focus_def skip_fwd_def survey_tab_def)
  from tab_simulates_session [OF survey_well_formed survey_spaced r, of KEY_DOWN]
  obtain t' where t': "snd (on_input example_host KEY_DOWN survey_tab) = Inr t'"
    "session_of t' = session_key (editor example_host) KEY_DOWN (session_of survey_tab)"
    by blast
  from t'(2) k have "focus (session_of t') = 2" by (simp only:)
  with t'(1) r survey_well_formed survey_spaced show ?thesis by blast
qed

text \<open>
  C5.  From the constructor to the callback.  On a conforming form, with a host whose
  form object keeps the types of the fields, the constructor of the tab returns a tab
  whose session is the initial session of the form; every sequence of keys, resizes
  and refreshes returns (a refresh with the name of a tab, on a form with a visible
  field and strings as values of its fixed fields), and the session of the state it
  leaves is the session its keys give from the initial one; the key \<^verbatim>\<open>^Y\<close> then
  applies \<^verbatim>\<open>on_send\<close> once, to a form in which every visible field whose widget has
  an answer has that answer as value.
\<close>

theorem run_then_submit:
  assumes "conforming fm" and "keeps_types hst" and "list_all (runnable fm) ops"
  shows "\<exists>t0 t. snd (DataFormsTab_init sz fm) = Inr t0 \<and> session_of t0 = initial fm \<and>
    snd (io_fold (run hst) ops t0) = Inr t \<and>
    session_of t = fold (session_key (editor hst)) (keys_of ops) (initial fm) \<and>
    fst (on_input hst ''^Y'' t) = [OnSend (sent hst t)] \<and>
    (\<forall>i v. i < length (visible fm) \<and> replyValue (widgets (session_of t) ! i) = Some v \<longrightarrow>
       f_value (field_at (sent hst t) (visible fm ! i)) = v)"
proof -
  from assms(1) have wf: "well_formed fm" and sp: "spaced (fixed_flags fm)"
    by (simp_all add: conforming_def)
  from well_formed_built [OF wf] obtain t0 where t0: "snd (DataFormsTab_init sz fm) = Inr t0"
    by (auto simp: DataFormsTab_init_result)
  then have r0: "reachable hst fm t0" by (rule reachable.start)
  from ops_run [OF wf sp assms(2) r0 assms(3)]
  obtain t where t: "snd (io_fold (run hst) ops t0) = Inr t" by blast
  from r0 t have r: "reachable hst fm t" by (rule reachable_io_fold)
  from widgets_ok_can_reply [OF session_widgets_ok [OF reachable_session_inv [OF r] wf]]
  have "fst (on_input hst ''^Y'' t) = [OnSend (sent hst t)]"
    by (simp add: on_input_def on_send_eq)
  with t0 t init_session [OF assms(1) t0] ops_simulate [OF wf sp r0 t] sent_answer [OF r assms(2)]
  show ?thesis by (simp del: session_of_simps)
qed

theorem run_then_submit_witness:
  "conforming survey_form \<and> keeps_types example_host \<and>
   (\<exists>t. snd (io_fold (run example_host)
           [Key KEY_DOWN, DoResize (30, 100), DoRefresh [''room''], Key KEY_LEFT] survey_tab) = Inr t \<and>
      focus (session_of t) = 2 \<and>
      fst (on_input example_host ''^Y'' t) = [OnSend (sent example_host t)] \<and>
      f_value (field_at (sent example_host t) 2) = PStr ''red'')"
proof -
  let ?ops = "[Key KEY_DOWN, DoResize (30, 100), DoRefresh [''room''], Key KEY_LEFT]"
  let ?s = "fold (session_key (editor example_host)) (keys_of ?ops) (initial survey_form)"
  have i: "initial survey_form =
      \<lparr>widgets = [TextWidget False ''ann'' 3, DummyWidget, ListSingleWidget [''red'', ''green''] 1,
         ListMultiWidget [(''sat'', True), (''sun'', False)] 0, BooleanWidget True KEY_RIGHT],
       focus = 0\<rparr>"
    unfolding initial_def survey_visible
    by (simp add: widget_for_def survey_form_def mk_field_def field_at_def choice_def
        position_of_def chosen_def initial_focus_def skip_fwd_def)
  have s: "focus ?s = 2" "replyValue (widgets ?s ! 2) = Some (PStr ''red'')"
    by (simp_all add: i session_key_def inert_def advance_focus_def skip_fwd_def clamp_def)
  have "list_all (runnable survey_form) ?ops" by (simp add: survey_visible survey_labelled)
  from run_then_submit [OF survey_conforming example_keeps_types this, of "(24, 80)"]
  obtain t0 t where k: "snd (DataFormsTab_init (24, 80) survey_form) = Inr t0"
    "snd (io_fold (run example_host) ?ops t0) = Inr t"
    "session_of t = ?s" "fst (on_input example_host ''^Y'' t) = [OnSend (sent example_host t)]"
    "\<forall>i v. i < length (visible survey_form) \<and> replyValue (widgets (session_of t) ! i) = Some v \<longrightarrow>
       f_value (field_at (sent example_host t) (visible survey_form ! i)) = v"
    by blast
  from k(1) have t0: "t0 = survey_tab" by (simp add: survey_tab_init)
  from k(3) s have "focus (session_of t) = 2" "replyValue (widgets (session_of t) ! 2) = Some (PStr ''red'')"
    by (simp_all only:)
  moreover have "2 < length (visible survey_form)" "visible survey_form ! 2 = 2"
    by (simp_all add: survey_visible)
  with calculation(2) k(5) [rule_format, of 2 "PStr ''red''"]
  have "f_value (field_at (sent example_host t) 2) = PStr ''red''" by (simp only:)
  ultimately show ?thesis using k(2,4) t0 survey_conforming example_keeps_types by blast
qed

text \<open>
  C9.  The invariant of the focus controller of the specification (the focus is on
  a widget that is not inert, unless there is none) holds in every state the tab can
  reach exactly on the forms whose fixed fields stand alone, and on the forms whose
  visible fields are all fixed: if the first or the last visible field is fixed, or
  two fixed fields are adjacent, some sequence of \<^verbatim>\<open>KEY_DOWN\<close> and \<^verbatim>\<open>KEY_UP\<close>
  leaves the focus on a fixed field.
\<close>

theorem focus_sound_iff_spaced:
  assumes "well_formed fm"
  shows "(\<forall>t. reachable hst fm t \<longrightarrow> focus_sound (session_of t)) \<longleftrightarrow>
    spaced (fixed_flags fm) \<or> list_all id (fixed_flags fm)"
proof
  assume "\<forall>t. reachable hst fm t \<longrightarrow> focus_sound (session_of t)"
  with unsound_state [OF assms, of hst] show "spaced (fixed_flags fm) \<or> list_all id (fixed_flags fm)"
    by blast
next
  assume "spaced (fixed_flags fm) \<or> list_all id (fixed_flags fm)"
  with assms show "\<forall>t. reachable hst fm t \<longrightarrow> focus_sound (session_of t)"
    by (auto intro: reachable_sound all_fixed_sound reachable_session_inv)
qed

theorem focus_sound_iff_spaced_witness:
  "well_formed survey_form \<and> well_formed example_form \<and>
   reachable example_host survey_form survey_tab \<and> focus_sound (session_of survey_tab) \<and>
   (\<exists>t. reachable example_host example_form t \<and> \<not> focus_sound (session_of t))"
proof -
  have "\<not> spaced (fixed_flags example_form)" "\<not> list_all id (fixed_flags example_form)"
    by (simp_all add: example_flags spaced_def)
  moreover have "reachable example_host survey_form survey_tab"
    by (rule reachable.start) (rule survey_tab_init)
  ultimately show ?thesis
    using focus_sound_iff_spaced [OF survey_well_formed, of example_host]
      focus_sound_iff_spaced [OF example_well_formed, of example_host]
    by (simp add: survey_well_formed example_well_formed survey_spaced)
qed

text \<open>
  C15.  Every widget that is not inert can get the focus: on a form that meets the data
  model and whose fixed fields stand alone, from every state the tab can reach and
  for every visible field that is not fixed, at most as many presses of \<^verbatim>\<open>KEY_UP\<close>,
  or of \<^verbatim>\<open>KEY_DOWN\<close>, as the form has visible fields return and leave the focus on
  the input of that field, and the edit state of every widget as it was.
\<close>

theorem every_widget_reachable:
  assumes "well_formed fm" and "spaced (fixed_flags fm)" and "reachable hst fm t"
    and "k < length (visible fm)" and "f_type (field_at fm (visible fm ! k)) \<noteq> ''fixed''"
  shows "\<exists>n key t'. n \<le> length (visible fm) \<and> (key = KEY_UP \<or> key = KEY_DOWN) \<and>
    snd (io_fold (run hst) (replicate n (Key key)) t) = Inr t' \<and>
    session_of t' = (session_of t)\<lparr>focus := int k\<rparr>"
proof -
  note p = session_inv_parts [OF reachable_session_inv [OF assms(3)]]
  from assms(4,5) p(2,4) have k: "k < length (widgets (session_of t))"
    "\<not> isInert (widgets (session_of t) ! k)"
    using nth_map [of k "inputs (form_win t)" "is_dummy \<circ> e_input"]
    by (simp_all add: fixed_flags_def dummies_def)
  from assms(2) p(2) have "spaced (inert (session_of t))" by simp
  from presses_reach [OF this reachable_sound [OF assms(1-3)] k, of "editor hst"] p(4)
  obtain n key where n: "n \<le> length (visible fm)" "key = KEY_UP \<or> key = KEY_DOWN"
    "fold (session_key (editor hst)) (replicate n key) (session_of t) = (session_of t)\<lparr>focus := int k\<rparr>"
    by (auto simp: fixed_flags_def)
  from keys_simulate [OF assms(1-3), of "replicate n key"] n show ?thesis
    by (auto simp del: session_of_simps)
qed

theorem every_widget_reachable_witness:
  "well_formed survey_form \<and> spaced (fixed_flags survey_form) \<and>
   reachable example_host survey_form survey_tab \<and>
   (\<exists>n key t'. n \<le> length (visible survey_form) \<and> (key = KEY_UP \<or> key = KEY_DOWN) \<and>
      snd (io_fold (run example_host) (replicate n (Key key)) survey_tab) = Inr t' \<and>
      session_of t' = (session_of survey_tab)\<lparr>focus := 4\<rparr>)"
proof -
  have r: "reachable example_host survey_form survey_tab"
    by (rule reachable.start) (rule survey_tab_init)
  from every_widget_reachable [OF survey_well_formed survey_spaced r, of 4]
  show ?thesis
    by (simp add: survey_well_formed survey_spaced r survey_visible del: session_of_simps)
      (simp add: survey_form_def field_at_def mk_field_def del: session_of_simps)
qed

end
