(* ===== verification/Spec2Isabelle.thy ===== *)
theory Spec2Isabelle
  imports Form_Session
begin

text \<open>
  A model of \<^verbatim>\<open>src/src/data_forms.py\<close>, the module of poezio that shows an XMPP data
  form in a tab of the terminal and lets the user fill it in, with the theorems that
  say what the module does.

  \<^bold>\<open>The program.\<close>  The module has three layers.  The input widgets
  (\<^verbatim>\<open>FieldInput\<close> and its subclasses \<^verbatim>\<open>DummyInput\<close>, \<^verbatim>\<open>BooleanWin\<close>, \<^verbatim>\<open>ListMultiWin\<close>,
  \<^verbatim>\<open>ListSingleWin\<close>, \<^verbatim>\<open>TextSingleWin\<close>, \<^verbatim>\<open>TextPrivateWin\<close>) each hold the edit state of
  one field, handle keys, draw themselves and write their answer into the field.
  \<^verbatim>\<open>FormWin\<close> builds one input per field that is not hidden, keeps the index of the
  input that has the focus, moves the focus over the fixed fields
  (\<^verbatim>\<open>go_to_next_input\<close>, \<^verbatim>\<open>go_to_previous_input\<close>), passes keys to the focused input
  and commits all inputs (\<^verbatim>\<open>reply\<close>).  \<^verbatim>\<open>DataFormsTab\<close> owns the form window, binds
  \<^verbatim>\<open>KEY_UP\<close>, \<^verbatim>\<open>KEY_DOWN\<close>, \<^verbatim>\<open>^G\<close> and \<^verbatim>\<open>^Y\<close>, and calls the callbacks \<^verbatim>\<open>on_cancel\<close>
  and \<^verbatim>\<open>on_send\<close> of the application.

  \<^bold>\<open>The theories\<close>, in the order of their imports:
  \<^item> \<open>Forms_Prelude\<close>: Python values (\<open>pyval\<close>), exceptions (\<open>error\<close>) and the
    operators the module applies to them: \<open>py_bool\<close>, \<open>py_in\<close>, \<open>py_eq_str\<close>,
    \<open>py_index\<close> and \<open>py_get\<close> (indexing, negative indices included, \<^verbatim>\<open>IndexError\<close>
    as a result), \<open>py_slice\<close>, \<open>py_repeat\<close>.
  \<^item> \<open>Field\<close>: the form object and its fields, which belong to the XMPP library
    and are modelled from the data model of the specification.  The objects are
    shared and mutated through references; the model keeps the fields in the form
    and a reference is an index (\<open>field_at\<close>, \<open>upd_field\<close>).
  \<^item> \<open>Effects\<close>: an operation returns its trace (the calls on curses windows, the
    operations on \<^verbatim>\<open>g_lock\<close>, the callbacks) and its result or the exception that
    ended it (\<open>'a io\<close>, with \<open>bind\<close>, \<open>with_lock\<close>, \<open>io_fold\<close>).  \<open>disciplined\<close>
    says that every curses call is made under the lock and the lock is then free.
  \<^item> \<open>Widgets\<close>: one record per widget class, one definition per method
    (\<open>BooleanWin_do_command\<close>, \<open>ListMultiWin_refresh\<close>, \<open>ListSingleWin_reply\<close>,
    \<open>TextPrivateWin_rewrite_text\<close>, \<dots>), and the dispatch over the datatype
    \<open>input\<close>.  The contract of a widget is \<open>answer\<close> and \<open>answered\<close>; the lemmas
    show that \<open>reply\<close> implements it, that keys keep the list cursors inside the
    options, and what the masked input draws.
  \<^item> \<open>FormWin\<close>: the record \<open>form_win\<close>, the constructor (\<open>init_field\<close>,
    \<open>FormWin_init\<close>), \<open>FormWin_reply\<close>, the two loops \<open>next_jump\<close> and \<open>prev_jump\<close>,
    \<open>go_to_next_input\<close>, \<open>go_to_previous_input\<close>, \<open>FormWin_on_input\<close>,
    \<open>FormWin_refresh\<close>, and the specification of the navigation (\<open>next_focus\<close>,
    \<open>advance\<close>, \<open>retreat\<close>).
  \<^item> \<open>FormWin_Navigation\<close>: the complete outcome of the two moves;
    \<^verbatim>\<open>go_to_next_input\<close> refines \<open>advance\<close>, \<^verbatim>\<open>go_to_previous_input\<close> equals
    \<open>retreat\<close>, which is not the mirror image of \<open>advance\<close>.
  \<^item> \<open>FormWin_Fields\<close>: the constructor equals \<open>built\<close>, \<^verbatim>\<open>reply\<close> leaves the form
    \<open>committed\<close>, and a key changes the focused input only; the invariant
    \<open>form_win_inv\<close>.
  \<^item> \<open>FormWin_Refresh\<close>: \<^verbatim>\<open>FormWin.refresh\<close> leaves the state \<open>refreshed\<close> and
    otherwise changes only the look of the inputs.
  \<^item> \<open>DataFormsTab\<close>: the tab, its key table, \<open>on_cancel\<close>, \<open>on_send\<close>, \<open>on_input\<close>,
    resize and refresh; the tab as a state machine (\<open>run\<close>, \<open>reachable\<close>) and its
    invariant \<open>tab_inv\<close>.
  \<^item> \<open>Session\<close>: what no operation changes of an input (\<open>shape\<close>), the forms that
    meet the data model (\<open>well_formed\<close>), and the invariant \<open>session_inv\<close> of every
    state of a tab.
  \<^item> \<open>Form_Session\<close>: the session of the specification as a state machine of its
    own (\<open>widget\<close>, \<open>applyKey\<close>, \<open>replyValue\<close>, \<open>advance_focus\<close>,
    \<open>retreat_focus\<close>, \<open>session_key\<close>, \<open>initial\<close>), the abstraction \<open>session_of\<close>
    of a tab, and the forms on which the tab implements it: \<open>conforming\<close> forms,
    which meet the data model and whose fixed fields stand alone (\<open>spaced\<close>).  The
    theorems are a simulation (every key of the tab is the step of the session, and
    resizes and refreshes do not count), the run from the constructor through any
    sequence of keys, resizes and refreshes to \<^verbatim>\<open>on_send\<close>, the exact set of forms on which the focus never rests on a fixed
    field, and that on those forms every other input can get the focus.
  \<^item> this theory: the properties of a whole session, from the constructor to the
    callback.

  \<^bold>\<open>What is outside the module\<close> is a parameter or an event.  The line editor of
  \<^verbatim>\<open>windows.Input\<close> is the function \<open>editor\<close> of the record \<open>host\<close>, the method
  \<^verbatim>\<open>reply\<close> of the form object its function \<open>form_reply\<close>, the size of the screen an
  argument of resize; the methods of the other windows and of curses are events of
  the trace.  Nothing is assumed of these parameters except where a theorem says so
  (\<open>keeps_types\<close>).  A reference to a field is its position in the form, so
  \<open>form_reply\<close> stands for a method that does not add, remove or reorder fields.

  \<^bold>\<open>Loops.\<close>  The two \<^verbatim>\<open>while\<close> loops are total functions with termination proofs
  (the measures are the distance to the end of the list and to its start), the
  \<^verbatim>\<open>for\<close> loops are folds over the list they run over; no fuel and no bound on the
  size of a form is needed.  Integers are Python's unbounded integers (\<open>int\<close>).

  \<^bold>\<open>Not modelled.\<close>  What curses shows on the screen, and the exceptions curses
  raises for coordinates outside a window; the bodies of the \<^verbatim>\<open>windows\<close> library and
  of \<^verbatim>\<open>Tab\<close>; exceptions raised by the callbacks; the copy of the fields into
  \<^verbatim>\<open>self.fields\<close> in the constructor of the tab, which nothing reads; the logger.
  When an operation raises, the model gives the trace up to the exception and the
  exception, not the partly changed state, since no caller in the module catches it.
  The key table is taken to hold the four keys the constructor binds.
\<close>

section \<open>Properties of a session\<close>

text \<open>
  C6.  On a form that meets the data model (every visible list field has an option,
  and the value of a multiple-choice field is a string or a list) the constructor
  of the tab raises nothing, and in every state the tab can reach the key \<^verbatim>\<open>^Y\<close>
  raises nothing, applies the callback \<^verbatim>\<open>on_send\<close> exactly once, to the form
  with the answers of the inputs, and never \<^verbatim>\<open>on_cancel\<close>.
\<close>

theorem submit_always_sends:
  assumes "well_formed fm"
  shows "(\<exists>t. snd (DataFormsTab_init sz fm) = Inr t) \<and>
    (\<forall>t. reachable hst fm t \<longrightarrow>
       on_input hst ''^Y'' t =
         ([OnSend (sent hst t)], Inr (t\<lparr>form_win := (form_win t)\<lparr>fw_form := sent hst t\<rparr>\<rparr>)))"
proof -
  from well_formed_built [OF assms] have "\<exists>t. snd (DataFormsTab_init sz fm) = Inr t"
    by (auto simp: DataFormsTab_init_result)
  moreover have "list_all can_reply (inputs (form_win t))" if "reachable hst fm t" for t
    using that assms by (intro widgets_ok_can_reply session_widgets_ok reachable_session_inv)
  ultimately show ?thesis by (simp add: on_input_def on_send_eq)
qed

theorem submit_always_sends_witness:
  "well_formed survey_form \<and> reachable example_host survey_form survey_tab \<and>
   fst (on_input example_host ''^Y'' survey_tab) = [OnSend (sent example_host survey_tab)] \<and>
   map (f_value \<circ> snd) (fm_fields (sent example_host survey_tab)) =
     [PStr ''ann'', PStr ''Choices'', PStr ''green'', PList [''sat''], PBool True]"
proof -
  have r: "reachable example_host survey_form survey_tab"
    by (rule reachable.start) (rule survey_tab_init)
  have "map (f_value \<circ> snd) (fm_fields (sent example_host survey_tab)) =
      [PStr ''ann'', PStr ''Choices'', PStr ''green'', PList [''sat''], PBool True]"
    by (simp add: sent_def committed_def commit_entry_def answered_def upd_field_def
        survey_tab_def survey_inputs_def survey_form_def example_host_def text_input_def
        dummy_input_def mk_field_def choice_def py_get_def py_index_def)
  with submit_always_sends [of survey_form "(24, 80)" example_host] r show ?thesis
    by (simp add: survey_well_formed)
qed

text \<open>
  C13.  In every state of a tab, the answer of each input has the type of its field:
  the \<open>i\<close>-th input belongs to the \<open>i\<close>-th visible field of the form the tab was
  made for, and its answer is a boolean for a boolean field, one of the values of
  the options for a single-choice list, a list of such values for a multiple-choice
  list, and a string for every other field.  An input has no answer only if its
  field is fixed or is a single-choice list without options.
\<close>

theorem answers_typed:
  assumes "reachable hst fm t" and "i < length (inputs (form_win t))"
  shows "fld (e_input (inputs (form_win t) ! i)) = visible fm ! i \<and>
    (case answer (e_input (inputs (form_win t) ! i)) of
       Inr v \<Rightarrow> typed_answer (field_at fm (visible fm ! i)) v
     | Inl e \<Rightarrow> f_type (field_at fm (visible fm ! i)) = ''fixed'' \<or>
               f_type (field_at fm (visible fm ! i)) = ''list-single'' \<and>
               f_options (field_at fm (visible fm ! i)) = [])"
proof -
  let ?w = "e_input (inputs (form_win t) ! i)" and ?f = "field_at fm (visible fm ! i)"
  note n = session_inv_nth [OF reachable_session_inv [OF assms(1)] assms(2)]
  from n(2) have k: "kind_of ?w = class_of (f_type ?f)" and r: "fld ?w = visible fm ! i"
    and o: "is_list_class (kind_of ?w) \<longrightarrow> option_values ?w = map o_value (f_options ?f)"
    by (simp_all add: shape_def shape_for_def Let_def)
  show ?thesis
  proof (cases "answer ?w")
    case (Inr v)
    with k o r show ?thesis by (simp add: answer_typed)
  next
    case (Inl e)
    with answer_fails [OF Inl n(3)] k o r show ?thesis
      by (auto simp: class_of_dummy_iff class_of_single_iff is_list_class_def)
  qed
qed

theorem answers_typed_witness:
  "reachable example_host survey_form survey_tab \<and>
   map (\<lambda>inp. answer (e_input inp)) (inputs (form_win survey_tab)) =
     [Inr (PStr ''ann''), Inl NotImplementedError, Inr (PStr ''green''),
      Inr (PList [''sat'']), Inr (PBool True)] \<and>
   typed_answer (field_at survey_form 3) (PList [''sat''])"
proof -
  have r: "reachable example_host survey_form survey_tab"
    by (rule reachable.start) (rule survey_tab_init)
  have "answer (e_input (inputs (form_win survey_tab) ! 3)) = Inr (PList [''sat''])"
    by (simp add: survey_tab_def survey_inputs_def choice_def)
  with answers_typed [OF r, of 3] r show ?thesis
    by (simp add: survey_visible)
      (simp add: survey_tab_def survey_inputs_def text_input_def dummy_input_def choice_def
        py_get_def py_index_def)
qed

text \<open>
  C14.  Every input below the focus that is not a dummy gets the focus: on a form that
  meets the data model, in every state of the tab, if the input at index \<open>k\<close> below
  the focus is not a dummy then at most as many presses of \<^verbatim>\<open>KEY_DOWN\<close> as there
  are inputs between raise nothing and leave the focus on \<open>k\<close>, drawn in the focused
  colour.
\<close>

theorem every_input_reachable:
  assumes "well_formed fm" and "reachable hst fm t"
    and "current_input (form_win t) < k" and "k < int (length (inputs (form_win t)))"
    and "\<not> is_dummy (input_at (form_win t) k)"
  shows "\<exists>n t'. 0 < n \<and> n \<le> nat (k - current_input (form_win t)) \<and>
    snd (io_fold (run hst) (replicate n (Key KEY_DOWN)) t) = Inr t' \<and>
    current_input (form_win t') = k \<and> color_of (input_at (form_win t') k) = focused"
proof -
  note inv = reachable_session_inv [OF assms(2)]
  then have f: "focus_ok (form_win t)" by (simp add: session_inv_def tab_inv_def form_win_inv_def)
  from inv assms(1) have w: "widgets_ok (form_win t)" by (rule session_widgets_ok)
  from f assms(3,4) have "0 \<le> current_input (form_win t)"
    by (simp add: focus_ok_def cursor_ok_def)
  moreover from assms(3-5) this have "\<not> dummies (inputs (form_win t)) ! nat k"
    by (simp add: input_at_def)
  ultimately obtain n where "0 < n" "n \<le> nat (k - current_input (form_win t))"
    "current_input ((advance ^^ n) (form_win t)) = k"
    "color_of (input_at ((advance ^^ n) (form_win t)) k) = focused"
    using advance_reaches [OF _ assms(3,4)] by blast
  with presses_down [OF f w, of hst n] show ?thesis by (intro exI [of _ n]) simp
qed

theorem every_input_reachable_witness:
  "reachable example_host survey_form survey_tab \<and>
   \<not> is_dummy (input_at (form_win survey_tab) 3) \<and>
   (\<exists>n t'. 0 < n \<and> n \<le> 3 \<and>
      snd (io_fold (run example_host) (replicate n (Key KEY_DOWN)) survey_tab) = Inr t' \<and>
      current_input (form_win t') = 3 \<and> color_of (input_at (form_win t') 3) = focused)"
proof -
  have r: "reachable example_host survey_form survey_tab"
    by (rule reachable.start) (rule survey_tab_init)
  have "current_input (form_win survey_tab) = 0" "length (inputs (form_win survey_tab)) = 5"
    "\<not> is_dummy (input_at (form_win survey_tab) 3)"
    by (simp_all add: survey_tab_def survey_inputs_def input_at_def)
  with every_input_reachable [OF survey_well_formed r, of 3] r show ?thesis by simp
qed

text \<open>
  C18.  The keys that raise, on a form that meets the data model and in every state
  of the tab: \<^verbatim>\<open>KEY_UP\<close> raises \<^verbatim>\<open>IndexError\<close> exactly when the focus is not on the
  first input, the inputs from the one before the focus on are dummies up to the
  end of the list, and there are at most as many of them as inputs before them; a
  key that is not bound raises \<^verbatim>\<open>TypeError\<close> exactly when the focus is on a dummy;
  and no other key raises anything.
\<close>

theorem keys_raise_iff:
  assumes "well_formed fm" and "reachable hst fm t"
  shows "snd (on_input hst k t) = Inl e \<longleftrightarrow>
     k = KEY_UP \<and> e = IndexError \<and> 0 < current_input (form_win t) \<and>
       skip_fwd (dummies (inputs (form_win t))) (current_input (form_win t) - 1)
         \<le> current_input (form_win t) - 1 \<and>
       int (length (inputs (form_win t)))
         \<le> current_input (form_win t) - 1 +
             skip_fwd (dummies (inputs (form_win t))) (current_input (form_win t) - 1) \<or>
     key_func k = None \<and> e = TypeError \<and> inputs (form_win t) \<noteq> [] \<and>
       is_dummy (input_at (form_win t) (current_input (form_win t)))"
proof -
  note inv = reachable_session_inv [OF assms(2)]
  then have f: "focus_ok (form_win t)" by (simp add: session_inv_def tab_inv_def form_win_inv_def)
  from inv assms(1) have w: "widgets_ok (form_win t)" by (rule session_widgets_ok)
  show ?thesis
  proof (cases "key_func k")
    case None
    then have "k \<noteq> KEY_UP" by auto
    with None FormWin_on_input_raises [OF f w, of "editor hst" k e] show ?thesis
      by (auto simp: on_input_def in_form_win_simps map_sum_def split: sum.splits)
  next
    case (Some c)
    show ?thesis
    proof (cases "c = GoToPreviousInput")
      case True
      with Some have "snd (on_input hst k t) = Inl e \<longleftrightarrow> retreat (form_win t) = Inl e"
        by (cases "retreat (form_win t)")
          (simp_all add: on_input_def in_form_win_simps moves_ok [OF f w])
      with Some True retreat_raises [OF f, of e] show ?thesis
        by (auto simp: key_func_Some_iff)
    next
      case False
      with Some show ?thesis
        by (cases c)
          (auto simp: key_func_Some_iff on_input_def in_form_win_simps moves_ok [OF f w]
            on_cancel_eq on_send_eq widgets_ok_can_reply [OF w])
    qed
  qed
qed

theorem keys_raise_iff_witness:
  "reachable example_host example_form example_tab \<and>
   snd (on_input example_host ''a'' example_tab) = Inl TypeError \<and>
   (\<forall>e. snd (on_input example_host KEY_UP example_tab) \<noteq> Inl e)"
proof -
  have r: "reachable example_host example_form example_tab"
    by (rule reachable.start) (rule example_tab_init)
  note wf = example_well_formed
  from keys_raise_iff [OF wf r, of "''a''" TypeError] keys_raise_iff [OF wf r, of KEY_UP] r
  show ?thesis
    by (simp add: key_func_def example_tab_def example_win_def input_at_def dummy_input_def)
qed

text \<open>
  C19.  \<^verbatim>\<open>refresh\<close> of the tab, on a form that meets the data model and whose fixed
  fields have strings as values, with a form object whose \<^verbatim>\<open>reply\<close> keeps the types
  of the fields, in every state of the tab: it raises \<^verbatim>\<open>IndexError\<close> when the list
  of tabs is empty or the form has no visible field, and otherwise returns and
  leaves the form window \<open>refreshed\<close>.
\<close>

theorem refresh_returns:
  assumes "well_formed fm" and "labelled fm" and "keeps_types hst" and "reachable hst fm t"
  shows "snd (DataFormsTab_refresh tabs t) =
     (if tabs = [] \<or> visible fm = [] then Inl IndexError
      else Inr (t\<lparr>form_win := refreshed (form_win t)\<rparr>))"
  using assms by (rule tab_refresh_result)

theorem refresh_returns_witness:
  "reachable example_host survey_form survey_tab \<and>
   snd (DataFormsTab_refresh [''room''] survey_tab) =
     Inr (survey_tab\<lparr>form_win := refreshed (form_win survey_tab)\<rparr>) \<and>
   map (\<lambda>inp. (width_of (e_input inp), color_of (e_input inp)))
     (inputs (refreshed (form_win survey_tab))) =
     [(26, focused), (26, unfocused), (26, unfocused), (26, unfocused), (26, unfocused)]"
proof -
  have r: "reachable example_host survey_form survey_tab"
    by (rule reachable.start) (rule survey_tab_init)
  have "map (\<lambda>inp. (width_of (e_input inp), color_of (e_input inp)))
      (inputs (refreshed (form_win survey_tab))) =
      [(26, focused), (26, unfocused), (26, unfocused), (26, unfocused), (26, unfocused)]"
    by (simp add: refreshed_def set_widths_def recolor_def survey_tab_def survey_inputs_def
        text_input_def dummy_input_def)
  with refresh_returns [OF survey_well_formed survey_labelled example_keeps_types r, of "[''room'']"]
    r show ?thesis
    by (simp add: survey_visible)
qed

text \<open>
  C17.  What the user types is what is sent: on a form that meets the data model,
  with a form object whose \<^verbatim>\<open>reply\<close> keeps the types of the fields, in a state of
  the tab whose focus is on a text input, any keys that are not bound raise
  nothing, and \<^verbatim>\<open>^Y\<close> pressed after them applies \<^verbatim>\<open>on_send\<close> to a form in which the
  value of the field of that input is the text the line editor has made of the old
  text and those keys.
\<close>

theorem typed_text_is_sent:
  assumes "well_formed fm" and "keeps_types hst" and "reachable hst fm t"
    and "\<forall>k \<in> set ks. key_func k = None" and "inputs (form_win t) \<noteq> []"
    and "is_text (input_at (form_win t) (current_input (form_win t)))"
  shows "\<exists>t'. snd (io_fold (run hst) (map Key ks) t) = Inr t' \<and>
     fst (on_input hst ''^Y'' t') = [OnSend (sent hst t')] \<and>
     f_value (field_at (sent hst t')
        (fld (input_at (form_win t) (current_input (form_win t))))) =
       PStr (fst (fold (editor hst) ks
         (text_of (input_at (form_win t) (current_input (form_win t))))))"
proof -
  let ?c = "current_input (form_win t)" and ?w = "input_at (form_win t) (current_input (form_win t))"
  let ?t = "t\<lparr>form_win := put_input (nat ?c) (type_keys (editor hst) ks ?w) (form_win t)\<rparr>"
  from reachable_session_inv [OF assms(3)] have "focus_ok (form_win t)"
    by (simp add: session_inv_def tab_inv_def form_win_inv_def)
  with assms(5) have c: "0 \<le> ?c" "?c < int (length (inputs (form_win t)))"
    using focus_ok_range [of "form_win t"] by simp_all
  with assms(4,6) have run: "snd (io_fold (run hst) (map Key ks) t) = Inr ?t"
    by (intro keys_text) simp_all
  with assms(3) have r: "reachable hst fm ?t" by (rule reachable_io_fold)
  from assms(2) reachable_types [OF assms(2) r]
  have ty: "field_types (form_reply hst (fw_form (form_win ?t))) = field_types fm"
    by (simp add: keeps_types_def)
  from c assms(6) have "answer (e_input (inputs (form_win ?t) ! nat ?c)) =
      Inr (PStr (fst (fold (editor hst) ks (text_of ?w))))"
    by (simp add: put_input_nth type_keys_answer)
  from sent_value [OF reachable_session_inv [OF r] ty _ this] c
  have "f_value (field_at (sent hst ?t) (fld ?w)) = PStr (fst (fold (editor hst) ks (text_of ?w)))"
    by (simp add: put_input_nth)
  moreover from assms(1) r have "list_all can_reply (inputs (form_win ?t))"
    by (intro widgets_ok_can_reply session_widgets_ok reachable_session_inv)
  ultimately show ?thesis using run
    by (intro exI [of _ ?t]) (simp add: on_input_def on_send_eq)
qed

theorem typed_text_is_sent_witness:
  "reachable typing_host survey_form survey_tab \<and>
   (\<exists>t'. snd (io_fold (run typing_host) [Key ''a'', Key ''b''] survey_tab) = Inr t' \<and>
      fst (on_input typing_host ''^Y'' t') = [OnSend (sent typing_host t')] \<and>
      f_value (field_at (sent typing_host t') 0) = PStr ''annab'')"
proof -
  have r: "reachable typing_host survey_form survey_tab"
    by (rule reachable.start) (rule survey_tab_init)
  have k: "keeps_types typing_host" by (simp add: keeps_types_def typing_host_def)
  have "input_at (form_win survey_tab) (current_input (form_win survey_tab)) = text_input 0 ''ann''"
    by (simp add: survey_tab_def survey_inputs_def input_at_def)
  with typed_text_is_sent [OF survey_well_formed k r, of "[''a'', ''b'']"] r show ?thesis
    by (simp add: key_func_def is_text_def text_input_def typing_host_def)
      (simp add: survey_tab_def survey_inputs_def)
qed

end
